theory Spec2Isabelle
  imports Complex_Main
begin

section \<open>Errors, arrays and counted loops\<close>

text \<open>
  The C++ code works on raw arrays.  A read or a write outside an array, the
  dereference of a null pointer and the read of a cell that was never written
  are undefined behaviour there; here each of them is a value of type
  \<open>error\<close>, and every function that can run into one returns \<open>error + 'a\<close>.
  Sizes and indices are natural numbers and integers without a bound: the
  model is of the runs in which the \<open>int\<close> arithmetic of the code does not
  overflow, and a theorem that says that the code returns states the bounds.
\<close>

datatype error = NullPointer | OutOfBounds | Uninitialised | Unsupported

definition bnd :: "error + 'a \<Rightarrow> ('a \<Rightarrow> error + 'b) \<Rightarrow> error + 'b" where
  "bnd m f = (case m of Inl e \<Rightarrow> Inl e | Inr x \<Rightarrow> f x)"

text \<open>\<open>xs[i]\<close> as an rvalue and \<open>xs[i] = v\<close>, for a non-negative index.\<close>

definition load :: "'a list \<Rightarrow> nat \<Rightarrow> error + 'a" where
  "load xs i = (if i < length xs then Inr (xs ! i) else Inl OutOfBounds)"

definition store :: "'a list \<Rightarrow> nat \<Rightarrow> 'a \<Rightarrow> error + 'a list" where
  "store xs i v = (if i < length xs then Inr (xs[i := v]) else Inl OutOfBounds)"

text \<open>The same read with a C++ \<open>int\<close> index, which may be negative.\<close>

definition load_int :: "'a list \<Rightarrow> int \<Rightarrow> error + 'a" where
  "load_int xs i = (if i < 0 then Inl OutOfBounds else load xs (nat i))"

text \<open>
  The values of a C++ \<open>int\<close> of 32 bits that are not negative.  Sizes and
  indices of the model have no bound; where a theorem says that the code
  returns, it asks of the products the code computes in \<open>int\<close> that they fit.
\<close>

definition fits_int :: "nat \<Rightarrow> bool" where
  "fits_int n \<longleftrightarrow> n \<le> 2147483647"

text \<open>
  An array obtained from \<open>new double[n]\<close> or \<open>mfem::Array<T>(n)\<close> holds \<open>n\<close>
  cells without a value: \<open>None\<close> is such a cell.
\<close>

definition uninit :: "nat \<Rightarrow> 'a option list" where
  "uninit n = replicate n None"

definition load_init :: "'a option list \<Rightarrow> nat \<Rightarrow> error + 'a" where
  "load_init xs i =
     bnd (load xs i) (\<lambda>c. case c of None \<Rightarrow> Inl Uninitialised | Some v \<Rightarrow> Inr v)"

text \<open>\<open>if (b) { f(x); }\<close> for an \<open>f\<close> that works on \<open>x\<close> in place.\<close>

definition when_do :: "bool \<Rightarrow> ('a \<Rightarrow> error + 'a) \<Rightarrow> 'a \<Rightarrow> error + 'a" where
  "when_do b f x = (if b then f x else Inr x)"

text \<open>
  \<open>for (int i = 0; i < n; ++i) body\<close> is \<open>for_each [0..<n] body\<close>: the body
  runs on the state once per index, in order, and the first error ends the loop.
\<close>

fun for_each :: "nat list \<Rightarrow> (nat \<Rightarrow> 's \<Rightarrow> error + 's) \<Rightarrow> 's \<Rightarrow> error + 's" where
  "for_each [] body s = Inr s"
| "for_each (i # is) body s = bnd (body i s) (for_each is body)"

section \<open>Finite element spaces, grid functions and meshes\<close>

text \<open>
  Only what \<open>KernelsGeometry\<close> reads from the external classes is kept: of the
  finite element of element 0 its dimension and number of dofs, of the space
  its vector dimension, number of dofs, number of elements, ordering and the
  \<open>J\<close> array of the element-to-dof table.
\<close>

datatype Ordering = byNODES | byVDIM

record FiniteElement =
  GetDim :: nat
  GetDof :: nat

record FiniteElementSpace =
  GetVDim :: nat
  GetNDofs :: nat
  GetNE :: nat
  GetOrdering :: Ordering
  GetFE0 :: FiniteElement
  ElementToDofJ :: "int list"

record 'a GridFunction =
  FESpace :: FiniteElementSpace
  GetData :: "'a list"

record 'a Mesh =
  GetSequence :: int
  GetNodes :: "'a GridFunction option"

record 'a IntegrationPoint =
  ip_x :: 'a
  ip_y :: 'a
  ip_z :: 'a
  weight :: 'a

record 'a IntegrationRule =
  IntPoint :: "'a IntegrationPoint list"

definition GetNPoints :: "'a IntegrationRule \<Rightarrow> nat" where
  "GetNPoints ir = length (IntPoint ir)"

section \<open>The two reorderings of a grid function\<close>

text \<open>
  \<open>KernelsGeometry::ReorderByVDim\<close>: \<open>temp[k++] = data[d+v*ndofs]\<close> for every
  dof \<open>d\<close> and component \<open>v\<close>, then \<open>data[i] = temp[i]\<close> for \<open>i < size\<close>.
\<close>

definition ReorderByVDim :: "'a GridFunction \<Rightarrow> error + 'a GridFunction" where
  "ReorderByVDim nodes =
     (let fes = FESpace nodes;
          size = length (GetData nodes);
          vdim = GetVDim fes;
          ndofs = GetNDofs fes;
          data = GetData nodes;
          temp = uninit size
      in bnd (for_each [0..<ndofs] (\<lambda>d. for_each [0..<vdim] (\<lambda>v (temp, k).
                bnd (load data (d + v * ndofs)) (\<lambda>x.
                bnd (store temp k (Some x)) (\<lambda>temp'. Inr (temp', Suc k)))))
              (temp, 0))
           (\<lambda>(temp, k).
         bnd (for_each [0..<size] (\<lambda>i data.
                bnd (load_init temp i) (\<lambda>x. store data i x)) data)
           (\<lambda>data'. Inr (nodes\<lparr>GetData := data'\<rparr>))))"

text \<open>
  \<open>KernelsGeometry::ReorderByNodes\<close>: \<open>temp[j+i*ndofs] = data[k++]\<close> for every
  dof \<open>j\<close> and component \<open>i\<close>, then \<open>data[i] = temp[i]\<close> for \<open>i < size\<close>.
\<close>

definition ReorderByNodes :: "'a GridFunction \<Rightarrow> error + 'a GridFunction" where
  "ReorderByNodes nodes =
     (let fes = FESpace nodes;
          size = length (GetData nodes);
          vdim = GetVDim fes;
          ndofs = GetNDofs fes;
          data = GetData nodes;
          temp = uninit size
      in bnd (for_each [0..<ndofs] (\<lambda>j. for_each [0..<vdim] (\<lambda>i (temp, k).
                bnd (load data k) (\<lambda>x.
                bnd (store temp (j + i * ndofs) (Some x)) (\<lambda>temp'. Inr (temp', Suc k)))))
              (temp, 0))
           (\<lambda>(temp, k).
         bnd (for_each [0..<size] (\<lambda>i data.
                bnd (load_init temp i) (\<lambda>x. store data i x)) data)
           (\<lambda>data'. Inr (nodes\<lparr>GetData := data'\<rparr>))))"

section \<open>The geometry cache\<close>

text \<open>
  \<open>KernelsGeometry\<close> holds the element dof map, the gathered node coordinates
  and the three arrays the geometry kernel fills.
\<close>

record 'a KernelsGeometry =
  eMap :: "int list"
  meshNodes :: "'a list"
  J :: "'a list"
  invJ :: "'a list"
  detJ :: "'a list"

definition new_KernelsGeometry :: "'a KernelsGeometry" where
  "new_KernelsGeometry = \<lparr>eMap = [], meshNodes = [], J = [], invJ = [], detJ = []\<rparr>"

text \<open>
  The parts of \<open>Get\<close> whose execution can be counted.  The trace is not a
  variable of the program: it records, in order, that the allocation of a new
  cache object, the curvature upgrade, a gather loop and a call of the geometry
  kernel took place.
\<close>

datatype event = NewGeometry | CurvatureUpgrade | GatherNodes | IniGeom

text \<open>
  The state the two \<open>Get\<close> functions work on: the file-static pointer
  \<open>geom\<close> (\<open>None\<close> is \<open>NULL\<close>, its initial value) and the mesh reached
  through \<open>fes.GetFESpace()->GetMesh()\<close>.
\<close>

record 'a world =
  geom :: "'a KernelsGeometry option"
  mesh :: "'a Mesh"
  trace :: "event list"

text \<open>The state before any call: \<open>static KernelsGeometry *geom=NULL;\<close>\<close>

definition initial_world :: "'a Mesh \<Rightarrow> 'a world" where
  "initial_world m = \<lparr>geom = None, mesh = m, trace = []\<rparr>"

text \<open>
  Functions that \<open>Get\<close> calls and whose code is in other files are its
  parameters:
  \<^item> \<open>ext_GeomNeedsUpdate\<close> is \<open>config::Get().GeomNeedsUpdate\<close>;
  \<^item> \<open>ext_nodal_gf\<close> is the grid function of the given order and ordering
    that \<open>Mesh::SetCurvature\<close> builds for a mesh;
  \<^item> \<open>ext_dofToQuadD\<close> is \<open>KernelsDofQuadMaps::GetSimplexMaps(fe, ir)->dofToQuadD\<close>;
  \<^item> \<open>ext_rIniGeom\<close> is the kernel \<open>rIniGeom\<close>, returning the contents of
    \<open>J\<close>, \<open>invJ\<close> and \<open>detJ\<close>;
  \<^item> \<open>ext_rNodeCopyByVDim\<close> is the kernel \<open>rNodeCopyByVDim\<close>, returning the
    contents of \<open>meshNodes\<close>.
\<close>

record 'a env =
  ext_GeomNeedsUpdate :: "int \<Rightarrow> bool"
  ext_nodal_gf :: "int \<Rightarrow> Ordering \<Rightarrow> 'a Mesh \<Rightarrow> 'a GridFunction"
  ext_dofToQuadD :: "FiniteElement \<Rightarrow> 'a IntegrationRule \<Rightarrow> 'a list"
  ext_rIniGeom :: "nat \<Rightarrow> nat \<Rightarrow> nat \<Rightarrow> nat \<Rightarrow> 'a list \<Rightarrow> 'a list
                     \<Rightarrow> error + 'a list \<times> 'a list \<times> 'a list"
  ext_rNodeCopyByVDim :: "nat \<Rightarrow> nat \<Rightarrow> nat \<Rightarrow> nat \<Rightarrow> int list \<Rightarrow> 'a list
                     \<Rightarrow> error + 'a list"

text \<open>
  Modelled from the spec: \<open>Mesh::SetCurvature\<close> is defined in another file.  The
  spec says of it that the mesh "gains persistent node storage it did not have
  before": the mesh's nodes become the grid function of the requested order and
  ordering.
\<close>

definition SetCurvature :: "'a env \<Rightarrow> int \<Rightarrow> Ordering \<Rightarrow> 'a Mesh \<Rightarrow> 'a Mesh" where
  "SetCurvature env p ordr m = m\<lparr>GetNodes := Some (ext_nodal_gf env p ordr m)\<rparr>"

text \<open>A local array is copied into the cache cell by cell; every cell must hold a value.\<close>

fun initialised :: "'a option list \<Rightarrow> error + 'a list" where
  "initialised [] = Inr []"
| "initialised (None # cs) = Inl Uninitialised"
| "initialised (Some v # cs) = bnd (initialised cs) (\<lambda>vs. Inr (v # vs))"

text \<open>
  The gather loop of \<open>Get\<close>: \<open>lid = d+numDofs*e\<close>, \<open>gid = elementMap[lid]\<close>,
  \<open>eMap[lid] = gid\<close> and \<open>meshNodes[v+dims*lid] = nodes[v+dims*gid]\<close>.
\<close>

definition gather :: "nat \<Rightarrow> nat \<Rightarrow> nat \<Rightarrow> int list \<Rightarrow> 'a list
    \<Rightarrow> error + int option list \<times> 'a option list" where
  "gather dims numDofs elements elementMap nodes =
     (let asize = dims * numDofs * elements;
          meshNodes = uninit asize;
          eMap = uninit (numDofs * elements)
      in for_each [0..<elements] (\<lambda>e. for_each [0..<numDofs] (\<lambda>d (eMap, meshNodes).
           let lid = d + numDofs * e in
           bnd (load elementMap lid) (\<lambda>gid.
           bnd (store eMap lid (Some gid)) (\<lambda>eMap.
           bnd (for_each [0..<dims] (\<lambda>v meshNodes.
                  let moffset = v + dims * lid;
                      xoffset = int v + int dims * gid
                  in bnd (load_int nodes xoffset) (\<lambda>c. store meshNodes moffset (Some c)))
                meshNodes)
             (\<lambda>meshNodes. Inr (eMap, meshNodes))))))
         (eMap, meshNodes))"

text \<open>
  \<open>KernelsGeometry::Get(fes, ir)\<close>, the initializing mode.  The second operand
  of \<open>||\<close> is evaluated only when \<open>geom\<close> is not null.  The arrays of the
  cache are lists here: the \<open>allocate\<close> calls, which only give them their size,
  leave no mark, and the assignments and the kernel give them their contents.
\<close>

definition Get :: "'a env \<Rightarrow> 'a IntegrationRule \<Rightarrow> 'a world \<Rightarrow> error + 'a world" where
  "Get env ir s =
     (let geom_to_allocate =
            (case geom s of None \<Rightarrow> True
                          | Some g \<Rightarrow> ext_GeomNeedsUpdate env (GetSequence (mesh s)));
          s = (if geom_to_allocate
               then s\<lparr>geom := Some new_KernelsGeometry, trace := trace s @ [NewGeometry]\<rparr>
               else s);
          s = (case GetNodes (mesh s) of
                 None \<Rightarrow> s\<lparr>mesh := SetCurvature env 1 byVDIM (mesh s),
                            trace := trace s @ [CurvatureUpgrade]\<rparr>
               | Some nodes \<Rightarrow> s)
      in case GetNodes (mesh s) of None \<Rightarrow> Inl NullPointer | Some nodes \<Rightarrow>
      (let fespace = FESpace nodes;
           fe = GetFE0 fespace;
           dims = GetDim fe;
           elements = GetNE fespace;
           numDofs = GetDof fe;
           numQuad = GetNPoints ir;
           orderedByNODES = (GetOrdering fespace = byNODES)
       in bnd (when_do orderedByNODES ReorderByVDim nodes) (\<lambda>nodes.
          bnd (gather dims numDofs elements (ElementToDofJ fespace) (GetData nodes))
            (\<lambda>(eMap', meshNodes').
          case geom s of None \<Rightarrow> Inl NullPointer | Some g \<Rightarrow>
          bnd (initialised meshNodes') (\<lambda>meshNodes'.
          bnd (initialised eMap') (\<lambda>eMap'.
          let g = g\<lparr>meshNodes := meshNodes', eMap := eMap'\<rparr> in
          bnd (when_do orderedByNODES ReorderByNodes nodes) (\<lambda>nodes.
          bnd (ext_rIniGeom env dims numDofs numQuad elements (ext_dofToQuadD env fe ir)
                 (meshNodes g)) (\<lambda>(J', invJ', detJ').
          Inr (s\<lparr>geom := Some (g\<lparr>J := J', invJ := invJ', detJ := detJ'\<rparr>),
                 mesh := (mesh s)\<lparr>GetNodes := Some nodes\<rparr>,
                 trace := trace s @ [GatherNodes, IniGeom]\<rparr>)))))))))"

text \<open>
  \<open>KernelsGeometry::Get(fes, ir, Sx)\<close>, the vector mode: \<open>nodes->FESpace()\<close>
  and \<open>geom->eMap\<close> are dereferenced as they are.
\<close>

definition Get_Sx :: "'a env \<Rightarrow> 'a IntegrationRule \<Rightarrow> 'a list \<Rightarrow> 'a world \<Rightarrow> error + 'a world" where
  "Get_Sx env ir Sx s =
     (case GetNodes (mesh s) of None \<Rightarrow> Inl NullPointer | Some nodes \<Rightarrow>
      (let fespace = FESpace nodes;
           fe = GetFE0 fespace;
           dims = GetDim fe;
           numDofs = GetDof fe;
           numQuad = GetNPoints ir;
           elements = GetNE fespace;
           ndofs = GetNDofs fespace
       in case geom s of None \<Rightarrow> Inl NullPointer | Some g \<Rightarrow>
          bnd (ext_rNodeCopyByVDim env elements numDofs ndofs dims (eMap g) Sx) (\<lambda>meshNodes'.
          bnd (ext_rIniGeom env dims numDofs numQuad elements (ext_dofToQuadD env fe ir)
                 meshNodes') (\<lambda>(J', invJ', detJ').
          Inr (s\<lparr>geom := Some (g\<lparr>meshNodes := meshNodes', J := J', invJ := invJ', detJ := detJ'\<rparr>),
                 trace := trace s @ [GatherNodes, IniGeom]\<rparr>)))))"

text \<open>
  The two halves of \<open>Get\<close>, for the proofs: what is done to the cache pointer
  and to the mesh before the nodes are read, and the rest.
\<close>

definition Get_prologue :: "'a env \<Rightarrow> 'a world \<Rightarrow> 'a world" where
  "Get_prologue env s =
     (let s = (if (case geom s of None \<Rightarrow> True
                    | Some g \<Rightarrow> ext_GeomNeedsUpdate env (GetSequence (mesh s)))
               then s\<lparr>geom := Some new_KernelsGeometry, trace := trace s @ [NewGeometry]\<rparr>
               else s)
      in case GetNodes (mesh s) of
           None \<Rightarrow> s\<lparr>mesh := SetCurvature env 1 byVDIM (mesh s),
                      trace := trace s @ [CurvatureUpgrade]\<rparr>
         | Some nodes \<Rightarrow> s)"

definition Get_body :: "'a env \<Rightarrow> 'a IntegrationRule \<Rightarrow> 'a world \<Rightarrow> error + 'a world" where
  "Get_body env ir s =
     (case GetNodes (mesh s) of None \<Rightarrow> Inl NullPointer | Some nodes \<Rightarrow>
      (let fespace = FESpace nodes;
           fe = GetFE0 fespace;
           dims = GetDim fe;
           elements = GetNE fespace;
           numDofs = GetDof fe;
           numQuad = GetNPoints ir;
           orderedByNODES = (GetOrdering fespace = byNODES)
       in bnd (when_do orderedByNODES ReorderByVDim nodes) (\<lambda>nodes.
          bnd (gather dims numDofs elements (ElementToDofJ fespace) (GetData nodes))
            (\<lambda>(eMap', meshNodes').
          case geom s of None \<Rightarrow> Inl NullPointer | Some g \<Rightarrow>
          bnd (initialised meshNodes') (\<lambda>meshNodes'.
          bnd (initialised eMap') (\<lambda>eMap'.
          let g = g\<lparr>meshNodes := meshNodes', eMap := eMap'\<rparr> in
          bnd (when_do orderedByNODES ReorderByNodes nodes) (\<lambda>nodes.
          bnd (ext_rIniGeom env dims numDofs numQuad elements (ext_dofToQuadD env fe ir)
                 (meshNodes g)) (\<lambda>(J', invJ', detJ').
          Inr (s\<lparr>geom := Some (g\<lparr>J := J', invJ := invJ', detJ := detJ'\<rparr>),
                 mesh := (mesh s)\<lparr>GetNodes := Some nodes\<rparr>,
                 trace := trace s @ [GatherNodes, IniGeom]\<rparr>)))))))))"

text \<open>The grid function that \<open>mesh.GetNodes()\<close> gives \<open>Get\<close> after the curvature check.\<close>

definition Get_nodes :: "'a env \<Rightarrow> 'a world \<Rightarrow> 'a GridFunction" where
  "Get_nodes env s =
     (case GetNodes (mesh s) of None \<Rightarrow> ext_nodal_gf env 1 byVDIM (mesh s) | Some nodes \<Rightarrow> nodes)"

text \<open>How often a part of \<open>Get\<close> has run.\<close>

definition runs :: "event \<Rightarrow> 'a world \<Rightarrow> nat" where
  "runs ev s = count_list (trace s) ev"

text \<open>
  The index maps of the two reorderings: cell \<open>i\<close> of the reordered buffer
  holds cell \<open>to_vdim ndofs vdim i\<close> (\<open>to_nodes ndofs vdim i\<close>) of the old one.
\<close>

definition to_vdim :: "nat \<Rightarrow> nat \<Rightarrow> nat \<Rightarrow> nat" where
  "to_vdim ndofs vdim i = i div vdim + (i mod vdim) * ndofs"

definition to_nodes :: "nat \<Rightarrow> nat \<Rightarrow> nat \<Rightarrow> nat" where
  "to_nodes ndofs vdim i = (i mod ndofs) * vdim + i div ndofs"

section \<open>The geometry kernel\<close>

text \<open>
  Modelled from the spec: the kernel \<open>rIniGeom\<close> is defined in another file.  The
  spec gives the Jacobian at element \<open>e\<close> and quadrature point \<open>q\<close> as
  \<open>J[i][j] = \<Sum>dof coord[i, dof, elem] * gradBasis[j, dof, quadpt]\<close>, the
  determinant and the inverse by the closed formulas (cofactor expansion) for
  dimensions 1, 2 and 3, and the arrays as dense, indexed by (row, column,
  quadrature point, element) and by (quadrature point, element), the first
  index running fastest as in \<open>meshNodes\<close>.
\<close>

definition jacobian_at :: "nat \<Rightarrow> nat \<Rightarrow> 'a::field list \<Rightarrow> 'a list
    \<Rightarrow> nat \<Rightarrow> nat \<Rightarrow> nat \<Rightarrow> nat \<Rightarrow> 'a" where
  "jacobian_at dims numDofs dofToQuadD nodes e q i j =
     (\<Sum>d\<leftarrow>[0..<numDofs]. nodes ! (i + dims * (d + numDofs * e))
                          * dofToQuadD ! (j + dims * (d + numDofs * q)))"

text \<open>
  Modelled from the spec: the closed formula of the determinant that the kernel
  (in another file) uses in dimension 1, 2 and 3.
\<close>

definition det_closed :: "nat \<Rightarrow> (nat \<Rightarrow> nat \<Rightarrow> 'a::field) \<Rightarrow> 'a" where
  "det_closed dims A =
     (if dims = 1 then A 0 0
      else if dims = 2 then A 0 0 * A 1 1 - A 0 1 * A 1 0
      else A 0 0 * (A 1 1 * A 2 2 - A 1 2 * A 2 1)
         - A 0 1 * (A 1 0 * A 2 2 - A 1 2 * A 2 0)
         + A 0 2 * (A 1 0 * A 2 1 - A 1 1 * A 2 0))"

text \<open>
  Modelled from the spec: the cofactors of the closed formula of the inverse
  in dimension 1, 2 and 3, in place of the kernel's own code.
\<close>

definition cofactor :: "nat \<Rightarrow> (nat \<Rightarrow> nat \<Rightarrow> 'a::field) \<Rightarrow> nat \<Rightarrow> nat \<Rightarrow> 'a" where
  "cofactor dims A i j =
     (if dims = 1 then 1
      else if dims = 2 then (if i = j then A (1 - i) (1 - j) else - A j i)
      else A ((i + 1) mod 3) ((j + 1) mod 3) * A ((i + 2) mod 3) ((j + 2) mod 3)
         - A ((i + 1) mod 3) ((j + 2) mod 3) * A ((i + 2) mod 3) ((j + 1) mod 3))"

text \<open>
  Modelled from the spec: the inverse by its closed formula, the transposed
  matrix of cofactors divided by the determinant; the spec says that the
  kernel does not check the determinant.  The division is the exact one of a
  field, without the rounding of \<open>double\<close> and without its infinities: the
  kernel is used here only as an instance of the parameter \<open>ext_rIniGeom\<close> on
  elements whose determinant is not zero.
\<close>

definition inv_closed :: "nat \<Rightarrow> (nat \<Rightarrow> nat \<Rightarrow> 'a::field) \<Rightarrow> nat \<Rightarrow> nat \<Rightarrow> 'a" where
  "inv_closed dims A i j = cofactor dims A j i / det_closed dims A"

text \<open>
  Modelled from the spec: the dense array indexed by (row, column, quadrature
  point, element) that the kernel writes, the first index running fastest.
\<close>

definition tensor4 :: "nat \<Rightarrow> nat \<Rightarrow> nat \<Rightarrow> (nat \<Rightarrow> nat \<Rightarrow> nat \<Rightarrow> nat \<Rightarrow> 'a) \<Rightarrow> 'a list" where
  "tensor4 dims numQuad elements F =
     map (\<lambda>n. F (n div (dims * dims * numQuad)) (n div (dims * dims) mod numQuad)
               (n mod dims) (n div dims mod dims))
       [0..<dims * dims * numQuad * elements]"

text \<open>
  Modelled from the spec: the kernel \<open>rIniGeom\<close> itself, whose code is in
  another file.  It returns the contents of \<open>J\<close>, \<open>invJ\<close> and \<open>detJ\<close>; a
  dimension without a closed formula and input arrays that are too short are
  errors.
\<close>

definition rIniGeom :: "nat \<Rightarrow> nat \<Rightarrow> nat \<Rightarrow> nat \<Rightarrow> 'a::field list \<Rightarrow> 'a list
    \<Rightarrow> error + 'a list \<times> 'a list \<times> 'a list" where
  "rIniGeom dims numDofs numQuad elements dofToQuadD nodes =
     (if dims \<noteq> 1 \<and> dims \<noteq> 2 \<and> dims \<noteq> 3 then Inl Unsupported
      else if length nodes < dims * numDofs * elements
            \<or> length dofToQuadD < dims * numDofs * numQuad then Inl OutOfBounds
      else let Jac = jacobian_at dims numDofs dofToQuadD nodes in
        Inr (tensor4 dims numQuad elements Jac,
             tensor4 dims numQuad elements (\<lambda>e q. inv_closed dims (Jac e q)),
             map (\<lambda>n. det_closed dims (Jac (n div numQuad) (n mod numQuad)))
               [0..<numQuad * elements]))"

section \<open>Equations and mesh Jacobians of the partial assembly\<close>

text \<open>
  \<open>HostMassEq::evalD\<close>, in its two overloads.  \<open>D_ek\<close> is passed by reference
  and assigned; the function returns its new value.  \<open>det\<close> on a \<open>Tensor<2>\<close>
  is declared in another file and is a parameter, and so is the type of the
  numbers with its product.
\<close>

definition HostMassEq_evalD :: "('m \<Rightarrow> 'a::times) \<Rightarrow> 'a \<Rightarrow> nat \<Rightarrow> nat \<Rightarrow> nat \<Rightarrow> 'tr
    \<Rightarrow> 'a IntegrationPoint \<Rightarrow> 'm \<Rightarrow> 'a" where
  "HostMassEq_evalD det D_ek dimn k e Tr ip J_ek = weight ip * det J_ek"

record ('a, 'm, 'tr) QuadInfo =
  qi_dim :: nat
  qi_k :: nat
  qi_e :: nat
  qi_tr :: 'tr
  qi_ip :: "'a IntegrationPoint"
  qi_J_ek :: 'm

definition HostMassEq_evalD_info :: "('m \<Rightarrow> 'a::times) \<Rightarrow> 'a \<Rightarrow> ('a, 'm, 'tr) QuadInfo \<Rightarrow> 'a" where
  "HostMassEq_evalD_info det D_ek info = weight (qi_ip info) * det (qi_J_ek info)"

text \<open>
  Modelled from the spec: the class \<open>Tensor\<close> is declared in another file.  The
  spec calls it a dense, contiguous container with views and slices that do
  not copy; as in the arrays of the geometry cache the first index runs
  fastest, which is also what makes the \<open>dim \<times> dim\<close> view at \<open>&J(0,0,k,e)\<close>
  a matrix.  A view of \<open>n\<close> cells is set at the address of a cell.
\<close>

record 'a Tensor =
  sizes :: "nat list"
  cells :: "'a list"

text \<open>
  Modelled from the spec: the position of the cell with the given indices in a
  tensor of the given sizes (class \<open>Tensor\<close>, declared in another file).
\<close>

fun offset :: "nat list \<Rightarrow> nat list \<Rightarrow> nat" where
  "offset (n # ns) (i # is) = i + n * offset ns is"
| "offset ns is = 0"

text \<open>
  Modelled from the spec: the cells seen through a view of \<open>n\<close> cells set at
  position \<open>off\<close>, and the assignment of a matrix to such a view (class
  \<open>Tensor\<close>, declared in another file).
\<close>

definition read_view :: "'a list \<Rightarrow> nat \<Rightarrow> nat \<Rightarrow> error + 'a list" where
  "read_view xs off n =
     (if off + n \<le> length xs then Inr (take n (drop off xs)) else Inl OutOfBounds)"

definition assign_view :: "'a list \<Rightarrow> nat \<Rightarrow> 'a list \<Rightarrow> error + 'a list" where
  "assign_view xs off vs =
     (if off + length vs \<le> length xs
      then Inr (take off xs @ vs @ drop (off + length vs) xs) else Inl OutOfBounds)"

text \<open>
  \<open>MeshJac<HostVector<double>, false, true>\<close>: \<open>J\<close> has a matrix for every
  quadrature point of every element.  \<open>EvalJacobians\<close>, defined in another
  file, fills the cells of \<open>J\<close>; the parameter gives the value of each cell.
\<close>

record 'a MeshJac =
  mj_dim :: nat
  mj_J :: "'a Tensor"

definition new_MeshJac :: "(nat \<Rightarrow> 'f \<Rightarrow> int \<Rightarrow> nat \<Rightarrow> 'a) \<Rightarrow> 'f \<Rightarrow> nat \<Rightarrow> nat \<Rightarrow> nat \<Rightarrow> int
    \<Rightarrow> 'a MeshJac" where
  "new_MeshJac EvalJacobians fes dimn quads nbElts ir_order =
     \<lparr>mj_dim = dimn,
      mj_J = \<lparr>sizes = [dimn, dimn, quads, nbElts],
              cells = map (EvalJacobians dimn fes ir_order) [0..<dimn * dimn * quads * nbElts]\<rparr>\<rparr>"

definition MeshJac_call :: "'a MeshJac \<Rightarrow> nat \<Rightarrow> nat \<Rightarrow> error + 'a list" where
  "MeshJac_call mj e k =
     read_view (cells (mj_J mj)) (offset (sizes (mj_J mj)) [0, 0, k, e]) (mj_dim mj * mj_dim mj)"

text \<open>
  \<open>MeshJac<HostVector<double>, true, true>\<close>: the constructor computes the
  Jacobians at all quadrature points and assigns \<open>Jac(i,0)\<close> to the matrix of
  element \<open>i\<close>; \<open>operator()(e, k)\<close> is the view at \<open>&J(0,0,e)\<close>.
\<close>

record 'a MeshJacLinear =
  lin_dim :: nat
  lin_J :: "'a option Tensor"

definition new_MeshJacLinear :: "(nat \<Rightarrow> 'f \<Rightarrow> int \<Rightarrow> nat \<Rightarrow> 'a) \<Rightarrow> 'f \<Rightarrow> nat \<Rightarrow> nat \<Rightarrow> nat \<Rightarrow> int
    \<Rightarrow> error + 'a MeshJacLinear" where
  "new_MeshJacLinear EvalJacobians fes dimn quads nbElts ir_order =
     (let Jac = new_MeshJac EvalJacobians fes dimn quads nbElts ir_order in
      bnd (for_each [0..<nbElts] (\<lambda>i Jcells.
             bnd (MeshJac_call Jac i 0) (\<lambda>m.
             assign_view Jcells (offset [dimn, dimn, nbElts] [0, 0, i]) (map Some m)))
           (uninit (dimn * dimn * nbElts)))
        (\<lambda>Jcells. Inr \<lparr>lin_dim = dimn, lin_J = \<lparr>sizes = [dimn, dimn, nbElts], cells = Jcells\<rparr>\<rparr>))"

definition MeshJacLinear_call :: "'a MeshJacLinear \<Rightarrow> nat \<Rightarrow> nat \<Rightarrow> error + 'a list" where
  "MeshJacLinear_call mj e k =
     bnd (read_view (cells (lin_J mj)) (offset (sizes (lin_J mj)) [0, 0, e])
            (lin_dim mj * lin_dim mj))
       initialised"

section \<open>A mesh of two triangles\<close>

text \<open>
  The unit-height rectangle \<open>[0,2] \<times> [0,1]\<close> cut into two linear triangles with
  the vertices 0 = (0,0), 1 = (2,0), 2 = (0,1), 3 = (2,1), a one-point rule,
  and the gradients of the three linear basis functions.
\<close>

definition tri_fe :: FiniteElement where
  "tri_fe = \<lparr>GetDim = 2, GetDof = 3\<rparr>"

definition tri_fes :: "Ordering \<Rightarrow> FiniteElementSpace" where
  "tri_fes ordr = \<lparr>GetVDim = 2, GetNDofs = 4, GetNE = 2, GetOrdering = ordr,
                   GetFE0 = tri_fe, ElementToDofJ = [0, 1, 2, 1, 3, 2]\<rparr>"

definition tri_nodes_byNODES :: "real GridFunction" where
  "tri_nodes_byNODES = \<lparr>FESpace = tri_fes byNODES, GetData = [0, 2, 0, 2, 0, 0, 1, 1]\<rparr>"

definition tri_nodes_byVDIM :: "real GridFunction" where
  "tri_nodes_byVDIM = \<lparr>FESpace = tri_fes byVDIM, GetData = [0, 0, 2, 0, 0, 1, 2, 1]\<rparr>"

definition tri_ir :: "real IntegrationRule" where
  "tri_ir = \<lparr>IntPoint = [\<lparr>ip_x = 1/3, ip_y = 1/3, ip_z = 0, weight = 1/2\<rparr>]\<rparr>"

definition tri_env :: "real env" where
  "tri_env = \<lparr>ext_GeomNeedsUpdate = (\<lambda>sequence. sequence \<noteq> 0),
              ext_nodal_gf = (\<lambda>p ordr m. tri_nodes_byVDIM),
              ext_dofToQuadD = (\<lambda>fe ir. [-1, -1, 1, 0, 0, 1]),
              ext_rIniGeom = rIniGeom,
              ext_rNodeCopyByVDim = (\<lambda>elements numDofs ndofs dims eMap Sx.
                Inr (map (\<lambda>n. Sx ! nat (int (n mod dims) + int dims * eMap ! (n div dims)))
                       [0..<dims * numDofs * elements]))\<rparr>"

definition tri_geom :: "real KernelsGeometry" where
  "tri_geom = \<lparr>eMap = [0, 1, 2, 1, 3, 2],
               meshNodes = [0, 0, 2, 0, 0, 1, 2, 0, 2, 1, 0, 1],
               J = [2, 0, 0, 1, 0, 1, - 2, 1],
               invJ = [1 / 2, 0, 0, 1, 1 / 2, - (1 / 2), 1, 0],
               detJ = [2, 2]\<rparr>"

definition tri_world :: "real GridFunction option \<Rightarrow> real world" where
  "tri_world nodes = initial_world \<lparr>GetSequence = 0, GetNodes = nodes\<rparr>"

text \<open>The state after a first and after a second \<open>Get\<close> on the by-nodes mesh.\<close>

definition tri_world1 :: "real world" where
  "tri_world1 = \<lparr>geom = Some tri_geom,
                 mesh = \<lparr>GetSequence = 0, GetNodes = Some tri_nodes_byNODES\<rparr>,
                 trace = [NewGeometry, GatherNodes, IniGeom]\<rparr>"

definition tri_world2 :: "real world" where
  "tri_world2 = tri_world1\<lparr>trace := [NewGeometry, GatherNodes, IniGeom, GatherNodes, IniGeom]\<rparr>"

text \<open>A vector of node positions: the same mesh, stretched by two.\<close>

definition tri_Sx :: "real list" where
  "tri_Sx = [0, 0, 4, 0, 0, 2, 4, 2]"

section \<open>Sequencing and loops\<close>

lemma bnd_simps [simp]: "bnd (Inl e) f = Inl e" "bnd (Inr x) f = f x"
  by (simp_all add: bnd_def)

lemma bnd_eq_Inr: "bnd m f = Inr y \<longleftrightarrow> (\<exists>x. m = Inr x \<and> f x = Inr y)"
  by (cases m) simp_all

lemma for_each_append:
  "for_each (xs @ ys) body s = bnd (for_each xs body s) (for_each ys body)"
  by (induction xs arbitrary: s) (simp_all add: bnd_def split: sum.splits)

lemma for_each_snoc:
  "for_each (xs @ [n]) body s = bnd (for_each xs body s) (body n)"
  by (simp add: for_each_append bnd_def split: sum.splits)

lemma for_each_total:
  assumes "P 0 s"
    and "\<And>i t. i < n \<Longrightarrow> P i t \<Longrightarrow> \<exists>t'. body i t = Inr t' \<and> P (Suc i) t'"
  shows "\<exists>s'. for_each [0..<n] body s = Inr s' \<and> P n s'"
  using assms(2)
proof (induction n)
  case 0
  then show ?case using assms(1) by simp
next
  case (Suc n)
  then obtain s1 where s1: "for_each [0..<n] body s = Inr s1" "P n s1"
    by (metis less_Suc_eq)
  from Suc.prems [of n s1] s1(2) obtain s2 where "body n s1 = Inr s2" "P (Suc n) s2"
    by auto
  with s1 show ?case by (simp add: for_each_snoc)
qed

lemma for_each_partial:
  assumes "for_each [0..<n] body s = Inr s'" and "P 0 s"
    and "\<And>i t t'. i < n \<Longrightarrow> P i t \<Longrightarrow> body i t = Inr t' \<Longrightarrow> P (Suc i) t'"
  shows "P n s'"
  using assms(1,3)
proof (induction n arbitrary: s')
  case 0
  then show ?case using assms(2) by simp
next
  case (Suc n)
  from Suc.prems(1) obtain s1 where s1: "for_each [0..<n] body s = Inr s1" "body n s1 = Inr s'"
    by (auto simp: for_each_snoc bnd_eq_Inr)
  have "P n s1" using Suc.IH [OF s1(1)] Suc.prems(2) by (metis less_Suc_eq)
  then show ?case using Suc.prems(2) [of n s1 s'] s1(2) by simp
qed

section \<open>The reorderings are inverse to each other\<close>

lemma load_Inr: "i < length xs \<Longrightarrow> load xs i = Inr (xs ! i)"
  by (simp add: load_def)

lemma store_Inr: "i < length xs \<Longrightarrow> store xs i v = Inr (xs[i := v])"
  by (simp add: store_def)

lemma load_init_Some: "i < length xs \<Longrightarrow> xs ! i = Some v \<Longrightarrow> load_init xs i = Inr v"
  by (simp add: load_init_def load_def)

lemma copy_back:
  assumes "length temp = n" and "length data = n" and "\<forall>i<n. temp ! i = Some (f i)"
  shows "for_each [0..<n] (\<lambda>i data. bnd (load_init temp i) (\<lambda>x. store data i x)) data
           = Inr (map f [0..<n])"
proof -
  let ?P = "\<lambda>i d. length d = n \<and> (\<forall>j<i. d ! j = f j)"
  have "\<exists>d'. for_each [0..<n] (\<lambda>i data. bnd (load_init temp i) (\<lambda>x. store data i x)) data
           = Inr d' \<and> ?P n d'"
  proof (rule for_each_total [where P = ?P])
    show "?P 0 data" using assms(2) by simp
  next
    fix i t assume i: "i < n" and t: "?P i t"
    have "bnd (load_init temp i) (\<lambda>x. store t i x) = Inr (t[i := f i])"
      using i t assms(1,3) by (simp add: load_init_Some store_Inr)
    moreover have "?P (Suc i) (t[i := f i])"
      using i t by (auto simp: nth_list_update less_Suc_eq)
    ultimately show "\<exists>t'. bnd (load_init temp i) (\<lambda>x. store t i x) = Inr t' \<and> ?P (Suc i) t'"
      by blast
  qed
  then obtain d' where d': "for_each [0..<n] (\<lambda>i data. bnd (load_init temp i) (\<lambda>x. store data i x)) data
           = Inr d'" "length d' = n" "\<forall>j<n. d' ! j = f j" by blast
  have "d' = map f [0..<n]"
    using d'(2,3) by (intro nth_equalityI) simp_all
  with d'(1) show ?thesis by simp
qed

lemma index_lt:
  fixes d v :: nat
  assumes "d < ndofs" and "v < vdim"
  shows "d + v * ndofs < ndofs * vdim" and "d * vdim + v < ndofs * vdim"
proof -
  have "d + v * ndofs < ndofs + v * ndofs" using assms(1) by simp
  also have "\<dots> = Suc v * ndofs" by simp
  also have "\<dots> \<le> vdim * ndofs" using assms(2) by (intro mult_le_mono1) simp
  finally show "d + v * ndofs < ndofs * vdim" by (simp add: mult.commute)
  have "d * vdim + v < d * vdim + vdim" using assms(2) by simp
  also have "\<dots> = Suc d * vdim" by simp
  also have "\<dots> \<le> ndofs * vdim" using assms(1) by (intro mult_le_mono1) simp
  finally show "d * vdim + v < ndofs * vdim" .
qed

lemma byvdim_fill:
  fixes data :: "'a list"
  assumes "length data = ndofs * vdim" and "length temp = ndofs * vdim"
  shows "\<exists>temp'. for_each [0..<ndofs] (\<lambda>d. for_each [0..<vdim] (\<lambda>v (temp, k).
                bnd (load data (d + v * ndofs)) (\<lambda>x.
                bnd (store temp k (Some x)) (\<lambda>temp'. Inr (temp', Suc k)))))
              (temp, 0) = Inr (temp', ndofs * vdim)
          \<and> length temp' = ndofs * vdim
          \<and> (\<forall>i<ndofs * vdim. temp' ! i = Some (data ! to_vdim ndofs vdim i))"
proof -
  let ?N = "ndofs * vdim"
  let ?inner = "\<lambda>d. for_each [0..<vdim] (\<lambda>v (temp, k).
                bnd (load data (d + v * ndofs)) (\<lambda>x.
                bnd (store temp k (Some x)) (\<lambda>temp'. Inr (temp', Suc k))))"
  let ?I = "\<lambda>m (t, k). k = m \<and> length t = ?N
              \<and> (\<forall>i<m. t ! i = Some (data ! to_vdim ndofs vdim i))"
  have inner: "\<exists>s'. ?inner d s = Inr s' \<and> ?I (Suc d * vdim) s'"
    if d: "d < ndofs" and s: "?I (d * vdim) s" for d s
  proof -
    have "\<exists>s'. ?inner d s = Inr s' \<and> ?I (d * vdim + vdim) s'"
    proof (rule for_each_total [where P = "\<lambda>v. ?I (d * vdim + v)"])
      show "?I (d * vdim + 0) s" using s by simp
    next
      fix v t assume v: "v < vdim" and t: "?I (d * vdim + v) t"
      obtain tm k where tk: "t = (tm, k)" by (cases t)
      with t have k: "k = d * vdim + v" and len: "length tm = ?N"
        and old: "\<forall>i<k. tm ! i = Some (data ! to_vdim ndofs vdim i)" by auto
      have lt: "d + v * ndofs < ?N" "k < ?N" using index_lt [OF d v] k by simp_all
      have tv: "to_vdim ndofs vdim k = d + v * ndofs"
        using v k by (simp add: to_vdim_def)
      let ?t' = "(tm[k := Some (data ! (d + v * ndofs))], Suc k)"
      have "(case t of (temp, k) \<Rightarrow> bnd (load data (d + v * ndofs)) (\<lambda>x.
                bnd (store temp k (Some x)) (\<lambda>temp'. Inr (temp', Suc k)))) = Inr ?t'"
        using lt len assms(1) by (simp add: tk load_Inr store_Inr)
      moreover have "?I (d * vdim + Suc v) ?t'"
        using k len old tv lt by (auto simp: nth_list_update less_Suc_eq)
      ultimately show "\<exists>t'. (case t of (temp, k) \<Rightarrow> bnd (load data (d + v * ndofs)) (\<lambda>x.
                bnd (store temp k (Some x)) (\<lambda>temp'. Inr (temp', Suc k)))) = Inr t'
              \<and> ?I (d * vdim + Suc v) t'" by blast
    qed
    then show ?thesis by (simp add: add.commute)
  qed
  have "\<exists>s'. for_each [0..<ndofs] ?inner (temp, 0) = Inr s' \<and> ?I (ndofs * vdim) s'"
  proof (rule for_each_total [where P = "\<lambda>d. ?I (d * vdim)"])
    show "?I (0 * vdim) (temp, 0)" using assms(2) by simp
  next
    fix d t assume "d < ndofs" and "?I (d * vdim) t"
    then show "\<exists>t'. ?inner d t = Inr t' \<and> ?I (Suc d * vdim) t'" by (rule inner)
  qed
  then show ?thesis by auto
qed

lemma bynodes_fill:
  fixes data :: "'a list"
  assumes "length data = ndofs * vdim" and "length temp = ndofs * vdim"
  shows "\<exists>temp'. for_each [0..<ndofs] (\<lambda>j. for_each [0..<vdim] (\<lambda>i (temp, k).
                bnd (load data k) (\<lambda>x.
                bnd (store temp (j + i * ndofs) (Some x)) (\<lambda>temp'. Inr (temp', Suc k)))))
              (temp, 0) = Inr (temp', ndofs * vdim)
          \<and> length temp' = ndofs * vdim
          \<and> (\<forall>m<ndofs * vdim. temp' ! m = Some (data ! to_nodes ndofs vdim m))"
proof -
  let ?N = "ndofs * vdim"
  let ?body = "\<lambda>j i (temp, k).
                bnd (load data k) (\<lambda>x.
                bnd (store temp (j + i * ndofs) (Some x)) (\<lambda>temp'. Inr (temp', Suc k)))"
  let ?inner = "\<lambda>j. for_each [0..<vdim] (?body j)"
  let ?I = "\<lambda>j i (t, k). k = j * vdim + i \<and> length t = ?N
              \<and> (\<forall>m<?N. m mod ndofs < j \<or> (m mod ndofs = j \<and> m div ndofs < i)
                     \<longrightarrow> t ! m = Some (data ! to_nodes ndofs vdim m))"
  have step: "\<exists>t'. ?body j i t = Inr t' \<and> ?I j (Suc i) t'"
    if j: "j < ndofs" and i: "i < vdim" and t: "?I j i t" for j i t
  proof -
    obtain tm k where tk: "t = (tm, k)" by (cases t)
    with t have k: "k = j * vdim + i" and len: "length tm = ?N"
      and old: "\<forall>m<?N. m mod ndofs < j \<or> (m mod ndofs = j \<and> m div ndofs < i)
                     \<longrightarrow> tm ! m = Some (data ! to_nodes ndofs vdim m)" by auto
    let ?m0 = "j + i * ndofs"
    have lt: "?m0 < ?N" "k < ?N" using index_lt [OF j i] k by simp_all
    have m0: "?m0 mod ndofs = j" "?m0 div ndofs = i" using j by simp_all
    have tn: "to_nodes ndofs vdim ?m0 = k" using m0 k by (simp add: to_nodes_def)
    let ?t' = "(tm[?m0 := Some (data ! k)], Suc k)"
    have "?body j i t = Inr ?t'"
      using lt len assms(1) by (simp add: tk load_Inr store_Inr)
    moreover have "?I j (Suc i) ?t'"
    proof -
      have "tm[?m0 := Some (data ! k)] ! m = Some (data ! to_nodes ndofs vdim m)"
        if m: "m < ?N" and c: "m mod ndofs < j \<or> (m mod ndofs = j \<and> m div ndofs < Suc i)" for m
      proof (cases "m = ?m0")
        case True
        then show ?thesis using lt len tn by simp
      next
        case False
        have "\<not> (m mod ndofs = j \<and> m div ndofs = i)"
        proof
          assume "m mod ndofs = j \<and> m div ndofs = i"
          then have "m = ?m0" using mod_div_mult_eq [of m ndofs] by simp
          with False show False by simp
        qed
        with c have "m mod ndofs < j \<or> (m mod ndofs = j \<and> m div ndofs < i)"
          by (auto simp: less_Suc_eq)
        with old m have "tm ! m = Some (data ! to_nodes ndofs vdim m)" by blast
        with False show ?thesis by simp
      qed
      then show ?thesis using k len by simp
    qed
    ultimately show ?thesis by blast
  qed
  have inner: "\<exists>s'. ?inner j s = Inr s' \<and> ?I (Suc j) 0 s'"
    if j: "j < ndofs" and s: "?I j 0 s" for j s
  proof -
    have "\<exists>s'. ?inner j s = Inr s' \<and> ?I j vdim s'"
    proof (rule for_each_total [where P = "?I j"])
      show "?I j 0 s" by (rule s)
    next
      fix i t assume "i < vdim" and "?I j i t"
      with j show "\<exists>t'. ?body j i t = Inr t' \<and> ?I j (Suc i) t'" by (rule step)
    qed
    then obtain tm k where r: "?inner j s = Inr (tm, k)" and I: "?I j vdim (tm, k)" by auto
    have "m div ndofs < vdim" if "m < ?N" for m
      using that by (simp add: less_mult_imp_div_less mult.commute)
    with I have "?I (Suc j) 0 (tm, k)" by (auto simp: less_Suc_eq)
    with r show ?thesis by blast
  qed
  have "\<exists>s'. for_each [0..<ndofs] ?inner (temp, 0) = Inr s' \<and> ?I ndofs 0 s'"
  proof (rule for_each_total [where P = "\<lambda>j. ?I j 0"])
    show "?I 0 0 (temp, 0)" using assms(2) by simp
  next
    fix j t assume "j < ndofs" and "?I j 0 t"
    then show "\<exists>t'. ?inner j t = Inr t' \<and> ?I (Suc j) 0 t'" by (rule inner)
  qed
  then obtain tm k where r: "for_each [0..<ndofs] ?inner (temp, 0) = Inr (tm, k)"
    and I: "?I ndofs 0 (tm, k)" by auto
  have "m mod ndofs < ndofs" if "m < ?N" for m
    using that by (cases "ndofs = 0") simp_all
  with I have "\<forall>m<?N. tm ! m = Some (data ! to_nodes ndofs vdim m)" by simp
  with r I show ?thesis by simp
qed

lemma ReorderByVDim_eq:
  assumes "length (GetData nodes) = GetNDofs (FESpace nodes) * GetVDim (FESpace nodes)"
  shows "ReorderByVDim nodes = Inr (nodes\<lparr>GetData :=
           map (\<lambda>i. GetData nodes ! to_vdim (GetNDofs (FESpace nodes)) (GetVDim (FESpace nodes)) i)
               [0..<length (GetData nodes)]\<rparr>)"
proof -
  let ?n = "GetNDofs (FESpace nodes)" and ?v = "GetVDim (FESpace nodes)"
  from byvdim_fill [of "GetData nodes" ?n ?v "uninit (length (GetData nodes))"] assms
  obtain temp' where t: "for_each [0..<?n] (\<lambda>d. for_each [0..<?v] (\<lambda>v (temp, k).
                bnd (load (GetData nodes) (d + v * ?n)) (\<lambda>x.
                bnd (store temp k (Some x)) (\<lambda>temp'. Inr (temp', Suc k)))))
              (uninit (length (GetData nodes)), 0) = Inr (temp', ?n * ?v)"
     "length temp' = ?n * ?v"
     "\<forall>i<?n * ?v. temp' ! i = Some (GetData nodes ! to_vdim ?n ?v i)"
    by (auto simp: uninit_def)
  show ?thesis
    unfolding ReorderByVDim_def Let_def t(1)
    using copy_back [of temp' "?n * ?v" "GetData nodes" "\<lambda>i. GetData nodes ! to_vdim ?n ?v i"] t(2,3) assms
    by simp
qed

lemma ReorderByNodes_eq:
  assumes "length (GetData nodes) = GetNDofs (FESpace nodes) * GetVDim (FESpace nodes)"
  shows "ReorderByNodes nodes = Inr (nodes\<lparr>GetData :=
           map (\<lambda>i. GetData nodes ! to_nodes (GetNDofs (FESpace nodes)) (GetVDim (FESpace nodes)) i)
               [0..<length (GetData nodes)]\<rparr>)"
proof -
  let ?n = "GetNDofs (FESpace nodes)" and ?v = "GetVDim (FESpace nodes)"
  from bynodes_fill [of "GetData nodes" ?n ?v "uninit (length (GetData nodes))"] assms
  obtain temp' where t: "for_each [0..<?n] (\<lambda>j. for_each [0..<?v] (\<lambda>i (temp, k).
                bnd (load (GetData nodes) k) (\<lambda>x.
                bnd (store temp (j + i * ?n) (Some x)) (\<lambda>temp'. Inr (temp', Suc k)))))
              (uninit (length (GetData nodes)), 0) = Inr (temp', ?n * ?v)"
     "length temp' = ?n * ?v"
     "\<forall>i<?n * ?v. temp' ! i = Some (GetData nodes ! to_nodes ?n ?v i)"
    by (auto simp: uninit_def)
  show ?thesis
    unfolding ReorderByNodes_def Let_def t(1)
    using copy_back [of temp' "?n * ?v" "GetData nodes" "\<lambda>i. GetData nodes ! to_nodes ?n ?v i"] t(2,3) assms
    by simp
qed

lemma to_vdim_to_nodes:
  assumes "m < ndofs * vdim"
  shows "to_vdim ndofs vdim (to_nodes ndofs vdim m) = m"
    and "to_nodes ndofs vdim m < ndofs * vdim"
proof -
  have d: "m div ndofs < vdim" using assms by (simp add: less_mult_imp_div_less mult.commute)
  have n: "m mod ndofs < ndofs" using assms by (cases "ndofs = 0") simp_all
  show "to_nodes ndofs vdim m < ndofs * vdim"
    unfolding to_nodes_def using index_lt(2) [OF n d] .
  show "to_vdim ndofs vdim (to_nodes ndofs vdim m) = m"
    using d by (simp add: to_vdim_def to_nodes_def)
qed

lemma to_nodes_to_vdim:
  assumes "m < ndofs * vdim"
  shows "to_nodes ndofs vdim (to_vdim ndofs vdim m) = m"
    and "to_vdim ndofs vdim m < ndofs * vdim"
proof -
  have d: "m div vdim < ndofs" using assms by (simp add: less_mult_imp_div_less)
  have n: "m mod vdim < vdim" using assms by (cases "vdim = 0") simp_all
  show "to_vdim ndofs vdim m < ndofs * vdim"
    unfolding to_vdim_def using index_lt(1) [OF d n] .
  show "to_nodes ndofs vdim (to_vdim ndofs vdim m) = m"
    using d by (simp add: to_vdim_def to_nodes_def)
qed


lemma reorder_vdim_nodes:
  assumes "length (GetData nodes) = GetNDofs (FESpace nodes) * GetVDim (FESpace nodes)"
  shows "bnd (ReorderByVDim nodes) ReorderByNodes = Inr nodes"
proof -
  let ?n = "GetNDofs (FESpace nodes)" and ?v = "GetVDim (FESpace nodes)"
  let ?N = "length (GetData nodes)"
  have "map (\<lambda>i. map (\<lambda>i. GetData nodes ! to_vdim ?n ?v i) [0..<?N] ! to_nodes ?n ?v i) [0..<?N]
        = GetData nodes"
    using assms to_vdim_to_nodes [of _ ?n ?v] by (intro nth_equalityI) simp_all
  then show ?thesis using assms by (simp add: ReorderByVDim_eq ReorderByNodes_eq)
qed

lemma reorder_nodes_vdim:
  assumes "length (GetData nodes) = GetNDofs (FESpace nodes) * GetVDim (FESpace nodes)"
  shows "bnd (ReorderByNodes nodes) ReorderByVDim = Inr nodes"
proof -
  let ?n = "GetNDofs (FESpace nodes)" and ?v = "GetVDim (FESpace nodes)"
  let ?N = "length (GetData nodes)"
  have "map (\<lambda>i. map (\<lambda>i. GetData nodes ! to_nodes ?n ?v i) [0..<?N] ! to_vdim ?n ?v i) [0..<?N]
        = GetData nodes"
    using assms to_nodes_to_vdim [of _ ?n ?v] by (intro nth_equalityI) simp_all
  then show ?thesis using assms by (simp add: ReorderByVDim_eq ReorderByNodes_eq)
qed

text \<open>
  C1.  For a grid function whose buffer has \<open>ndofs * vdim\<close> cells,
  \<open>ReorderByVDim\<close> followed by \<open>ReorderByNodes\<close> succeeds and gives back the
  grid function with every cell as it was, and so does \<open>ReorderByNodes\<close>
  followed by \<open>ReorderByVDim\<close>.
\<close>

theorem reorder_round_trip:
  assumes "length (GetData nodes) = GetNDofs (FESpace nodes) * GetVDim (FESpace nodes)"
  shows "bnd (ReorderByVDim nodes) ReorderByNodes = Inr nodes
       \<and> bnd (ReorderByNodes nodes) ReorderByVDim = Inr nodes"
  using reorder_vdim_nodes [OF assms] reorder_nodes_vdim [OF assms] by simp

theorem reorder_round_trip_witness:
  "length (GetData tri_nodes_byNODES)
     = GetNDofs (FESpace tri_nodes_byNODES) * GetVDim (FESpace tri_nodes_byNODES)
   \<and> ReorderByVDim tri_nodes_byNODES
     = Inr (tri_nodes_byNODES\<lparr>GetData := [0, 0, 2, 0, 0, 1, 2, 1]\<rparr>)
   \<and> bnd (ReorderByVDim tri_nodes_byNODES) ReorderByNodes = Inr tri_nodes_byNODES
   \<and> bnd (ReorderByNodes tri_nodes_byNODES) ReorderByVDim = Inr tri_nodes_byNODES"
proof -
  have len: "length (GetData tri_nodes_byNODES)
     = GetNDofs (FESpace tri_nodes_byNODES) * GetVDim (FESpace tri_nodes_byNODES)"
    by (simp add: tri_nodes_byNODES_def tri_fes_def)
  have "ReorderByVDim tri_nodes_byNODES
     = Inr (tri_nodes_byNODES\<lparr>GetData := [0, 0, 2, 0, 0, 1, 2, 1]\<rparr>)"
    by code_simp
  with len reorder_round_trip [OF len] show ?thesis by simp
qed

section \<open>The gather loop\<close>

lemma load_eq_Inr: "load xs i = Inr v \<longleftrightarrow> i < length xs \<and> v = xs ! i"
  by (auto simp: load_def)

lemma store_eq_Inr: "store xs i v = Inr ys \<longleftrightarrow> i < length xs \<and> ys = xs[i := v]"
  by (auto simp: store_def)

lemma load_int_eq_Inr:
  "load_int xs i = Inr v \<longleftrightarrow> 0 \<le> i \<and> nat i < length xs \<and> v = xs ! nat i"
  by (auto simp: load_int_def load_eq_Inr)

lemma cell_lt:
  fixes v :: nat
  assumes "v < dims" and "lid < L"
  shows "v + dims * lid < dims * L"
proof -
  have "v + dims * lid < dims * Suc lid" using assms(1) by simp
  also have "\<dots> \<le> dims * L" using assms(2) by (intro mult_le_mono2) simp
  finally show ?thesis .
qed

lemma gather_Inr_D:
  fixes nodes :: "'a list"
  assumes "gather dims numDofs elements elementMap nodes = Inr (em, mn)"
  shows "length em = numDofs * elements \<and> length mn = dims * numDofs * elements
       \<and> (\<forall>lid<numDofs * elements. lid < length elementMap
             \<and> em ! lid = Some (elementMap ! lid)
             \<and> (\<forall>v<dims. 0 \<le> int v + int dims * elementMap ! lid
                   \<and> nat (int v + int dims * elementMap ! lid) < length nodes
                   \<and> mn ! (v + dims * lid)
                       = Some (nodes ! nat (int v + int dims * elementMap ! lid))))"
proof -
  let ?x = "\<lambda>v lid. int v + int dims * elementMap ! lid"
  let ?C = "\<lambda>(m :: 'a option list) lid v. 0 \<le> ?x v lid \<and> nat (?x v lid) < length nodes
              \<and> m ! (v + dims * lid) = Some (nodes ! nat (?x v lid))"
  let ?G = "\<lambda>L (e :: int option list, m). length e = numDofs * elements
              \<and> length m = dims * numDofs * elements
              \<and> (\<forall>lid<L. lid < length elementMap \<and> e ! lid = Some (elementMap ! lid)
                    \<and> (\<forall>v<dims. ?C m lid v))"
  let ?inner = "\<lambda>lid gid v meshNodes.
                  let moffset = v + dims * lid;
                      xoffset = int v + int dims * gid
                  in bnd (load_int nodes xoffset) (\<lambda>c. store meshNodes moffset (Some c))"
  let ?mid = "\<lambda>e d (eMap, meshNodes).
           let lid = d + numDofs * e in
           bnd (load elementMap lid) (\<lambda>gid.
           bnd (store eMap lid (Some gid)) (\<lambda>eMap.
           bnd (for_each [0..<dims] (?inner lid gid) meshNodes)
             (\<lambda>meshNodes. Inr (eMap, meshNodes))))"
  have mid: "?G (Suc (numDofs * e + d)) t'"
    if G: "?G (numDofs * e + d) t" and r: "?mid e d t = Inr t'" for e d t t'
  proof -
    obtain e0 m0 where t: "t = (e0, m0)" by (cases t)
    let ?L = "d + numDofs * e"
    let ?gid = "elementMap ! ?L"
    from r obtain e1 m1 where L: "?L < length elementMap"
      and e1: "?L < length e0" "e1 = e0[?L := Some ?gid]"
      and m1: "for_each [0..<dims] (?inner ?L ?gid) m0 = Inr m1" and t': "t' = (e1, m1)"
      by (auto simp: t Let_def bnd_eq_Inr load_eq_Inr store_eq_Inr)
    let ?R = "\<lambda>v m. length m = dims * numDofs * elements
                \<and> (\<forall>lid<?L. \<forall>v'<dims. ?C m lid v') \<and> (\<forall>v'<v. ?C m ?L v')"
    have "?R dims m1"
    proof (rule for_each_partial [OF m1, where P = ?R])
      show "?R 0 m0" using G by (simp add: t add.commute)
    next
      fix v m m' assume v: "v < dims" and R: "?R v m" and s: "?inner ?L ?gid v m = Inr m'"
      from s have x: "0 \<le> ?x v ?L" "nat (?x v ?L) < length nodes"
        and lt: "v + dims * ?L < length m"
        and m': "m' = m[v + dims * ?L := Some (nodes ! nat (?x v ?L))]"
        by (auto simp: Let_def bnd_eq_Inr load_int_eq_Inr store_eq_Inr)
      have old: "m' ! (v' + dims * lid) = m ! (v' + dims * lid)"
        if "lid < ?L" "v' < dims" for lid v'
        using cell_lt [OF that(2,1)] by (simp add: m')
      have old': "m' ! (v' + dims * ?L) = m ! (v' + dims * ?L)" if "v' < v" for v'
        using that by (simp add: m')
      have new: "m' ! (v + dims * ?L) = Some (nodes ! nat (?x v ?L))"
        using lt by (simp add: m')
      show "?R (Suc v) m'"
        using R x old old' new by (auto simp: m' less_Suc_eq)
    qed
    then have R: "length m1 = dims * numDofs * elements"
      "\<forall>lid<?L. \<forall>v'<dims. ?C m1 lid v'" "\<forall>v'<dims. ?C m1 ?L v'"
      by blast+
    have "e1 ! lid = Some (elementMap ! lid)" if "lid < Suc ?L" for lid
      using that G e1 by (cases "lid = ?L") (auto simp: t add.commute)
    moreover have "lid < length elementMap" if "lid < Suc ?L" for lid
      using that G L by (cases "lid = ?L") (auto simp: t add.commute)
    moreover have "\<forall>v<dims. ?C m1 lid v" if "lid < Suc ?L" for lid
      using that R(2,3) by (cases "lid = ?L") auto
    moreover have "length e1 = numDofs * elements" using G e1 by (simp add: t)
    ultimately show ?thesis using R(1) by (simp add: t' add.commute)
  qed
  have outer: "?G (numDofs * Suc e) t'"
    if G: "?G (numDofs * e) t" and r: "for_each [0..<numDofs] (?mid e) t = Inr t'" for e t t'
  proof -
    have "?G (numDofs * e + numDofs) t'"
    proof (rule for_each_partial [OF r, where P = "\<lambda>d. ?G (numDofs * e + d)"])
      show "?G (numDofs * e + 0) t" using G by simp
    next
      fix d u u' assume "d < numDofs" "?G (numDofs * e + d) u" "?mid e d u = Inr u'"
      then show "?G (numDofs * e + Suc d) u'" using mid [of e d u u'] by simp
    qed
    then show ?thesis by (simp add: add.commute)
  qed
  have "?G (numDofs * elements) (em, mn)"
  proof (rule for_each_partial [where P = "\<lambda>e. ?G (numDofs * e)"])
    show "for_each [0..<elements] (\<lambda>e. for_each [0..<numDofs] (?mid e))
            (uninit (numDofs * elements), uninit (dims * numDofs * elements)) = Inr (em, mn)"
      using assms by (simp add: gather_def Let_def)
    show "?G (numDofs * 0) (uninit (numDofs * elements), uninit (dims * numDofs * elements))"
      by (simp add: uninit_def)
  next
    fix e u u' assume "e < elements" "?G (numDofs * e) u"
      "for_each [0..<numDofs] (?mid e) u = Inr u'"
    then show "?G (numDofs * Suc e) u'" using outer [of e u u'] by simp
  qed
  then show ?thesis by simp
qed

lemma gather_succeeds:
  fixes nodes :: "'a list"
  assumes len: "numDofs * elements \<le> length elementMap"
    and rng: "\<forall>lid<numDofs * elements. \<forall>v<dims. 0 \<le> int v + int dims * elementMap ! lid
                \<and> nat (int v + int dims * elementMap ! lid) < length nodes"
  shows "\<exists>r. gather dims numDofs elements elementMap nodes = Inr r"
proof -
  let ?P = "\<lambda>(e :: int option list, m :: 'a option list). length e = numDofs * elements
              \<and> length m = dims * numDofs * elements"
  let ?inner = "\<lambda>lid gid v meshNodes.
                  let moffset = v + dims * lid;
                      xoffset = int v + int dims * gid
                  in bnd (load_int nodes xoffset) (\<lambda>c. store meshNodes moffset (Some c))"
  let ?mid = "\<lambda>e d (eMap, meshNodes).
           let lid = d + numDofs * e in
           bnd (load elementMap lid) (\<lambda>gid.
           bnd (store eMap lid (Some gid)) (\<lambda>eMap.
           bnd (for_each [0..<dims] (?inner lid gid) meshNodes)
             (\<lambda>meshNodes. Inr (eMap, meshNodes))))"
  have mid: "\<exists>t'. ?mid e d t = Inr t' \<and> ?P t'"
    if e: "e < elements" and d: "d < numDofs" and P: "?P t" for e d t
  proof -
    obtain e0 m0 where t: "t = (e0, m0)" by (cases t)
    let ?L = "d + numDofs * e"
    let ?gid = "elementMap ! ?L"
    have L: "?L < numDofs * elements" using cell_lt [OF d e] .
    have "\<exists>m1. for_each [0..<dims] (?inner ?L ?gid) m0 = Inr m1
             \<and> length m1 = dims * numDofs * elements"
    proof (rule for_each_total [where P = "\<lambda>v (m :: 'a option list). length m = dims * numDofs * elements"])
      show "length m0 = dims * numDofs * elements" using P by (simp add: t)
    next
      fix v and m :: "'a option list"
      assume v: "v < dims" and m: "length m = dims * numDofs * elements"
      have "v + dims * ?L < dims * (numDofs * elements)" using cell_lt [OF v L] .
      then have "v + dims * ?L < length m" using m by (simp add: mult.assoc)
      moreover have "0 \<le> int v + int dims * ?gid" "nat (int v + int dims * ?gid) < length nodes"
        using rng L v by blast+
      ultimately show "\<exists>m'. ?inner ?L ?gid v m = Inr m' \<and> length m' = dims * numDofs * elements"
        using m by (simp add: Let_def load_int_def load_def store_def)
    qed
    then obtain m1 where m1: "for_each [0..<dims] (?inner ?L ?gid) m0 = Inr m1"
      "length m1 = dims * numDofs * elements" by blast
    have "?L < length elementMap" "?L < length e0" using L len P by (simp_all add: t)
    then have "?mid e d t = Inr (e0[?L := Some ?gid], m1)"
      using m1(1) by (simp add: t Let_def load_def store_def)
    moreover have "?P (e0[?L := Some ?gid], m1)" using P m1(2) by (simp add: t)
    ultimately show ?thesis by blast
  qed
  have "\<exists>r. for_each [0..<elements] (\<lambda>e. for_each [0..<numDofs] (?mid e))
          (uninit (numDofs * elements), uninit (dims * numDofs * elements)) = Inr r \<and> ?P r"
  proof (rule for_each_total [where P = "\<lambda>e. ?P"])
    show "?P (uninit (numDofs * elements), uninit (dims * numDofs * elements))"
      by (simp add: uninit_def)
  next
    fix e t assume e: "e < elements" and P: "?P t"
    show "\<exists>t'. for_each [0..<numDofs] (?mid e) t = Inr t' \<and> ?P t'"
    proof (rule for_each_total [where P = "\<lambda>d. ?P"])
      show "?P t" by (rule P)
    next
      fix d u assume "d < numDofs" "?P u"
      with e show "\<exists>u'. ?mid e d u = Inr u' \<and> ?P u'" by (rule mid)
    qed
  qed
  then show ?thesis by (auto simp: gather_def Let_def)
qed

lemma all_Some_map:
  assumes "\<forall>i<length cs. \<exists>v. cs ! i = Some v"
  shows "\<exists>vs. cs = map Some vs"
proof -
  have "cs = map Some (map the cs)"
    using assms by (intro nth_equalityI) auto
  then show ?thesis ..
qed

lemma gather_Inr_map_Some:
  assumes "gather dims numDofs elements elementMap nodes = Inr (em, mn)"
  shows "\<exists>emv mnv. em = map Some emv \<and> mn = map Some mnv"
proof -
  note g = gather_Inr_D [OF assms]
  have "\<exists>v. em ! i = Some v" if "i < length em" for i
    using g that by simp
  moreover have "\<exists>v. mn ! i = Some v" if i: "i < length mn" for i
  proof -
    have dims: "0 < dims" using i g by (cases "dims = 0") simp_all
    have "i < dims * (numDofs * elements)" using i g by (simp add: mult.assoc)
    then have "i div dims < numDofs * elements" "i mod dims < dims"
      using dims by (simp_all add: less_mult_imp_div_less mult.commute)
    with g have "mn ! (i mod dims + dims * (i div dims))
        = Some (nodes ! nat (int (i mod dims) + int dims * elementMap ! (i div dims)))"
      by blast
    then show ?thesis by simp
  qed
  ultimately show ?thesis using all_Some_map [of em] all_Some_map [of mn] by blast
qed

section \<open>The initializing \<open>Get\<close>\<close>

lemma Get_split: "Get env ir s = Get_body env ir (Get_prologue env s)"
  unfolding Get_def Get_body_def Get_prologue_def Let_def ..

lemma when_do_simps [simp]: "when_do True f v = f v" "when_do False f v = Inr v"
  by (simp_all add: when_do_def)

lemma initialised_map_Some: "initialised (map Some vs) = Inr vs"
  by (induction vs) simp_all

lemma initialised_Inr_D: "initialised cs = Inr vs \<Longrightarrow> cs = map Some vs"
proof (induction cs arbitrary: vs)
  case Nil
  then show ?case by simp
next
  case (Cons c cs)
  then show ?case by (cases c) (auto simp: bnd_eq_Inr)
qed

lemma initialised_Inr_iff: "initialised cs = Inr vs \<longleftrightarrow> cs = map Some vs"
  using initialised_Inr_D initialised_map_Some by blast

lemma Get_body_Inr_iff:
  "Get_body env ir s = Inr s' \<longleftrightarrow>
     (\<exists>nodes g nodesV em mn nodesB Jt iJ dJ.
        GetNodes (mesh s) = Some nodes \<and> geom s = Some g
      \<and> when_do (GetOrdering (FESpace nodes) = byNODES) ReorderByVDim nodes = Inr nodesV
      \<and> gather (GetDim (GetFE0 (FESpace nodes))) (GetDof (GetFE0 (FESpace nodes)))
           (GetNE (FESpace nodes)) (ElementToDofJ (FESpace nodes)) (GetData nodesV)
          = Inr (map Some em, map Some mn)
      \<and> when_do (GetOrdering (FESpace nodes) = byNODES) ReorderByNodes nodesV = Inr nodesB
      \<and> ext_rIniGeom env (GetDim (GetFE0 (FESpace nodes))) (GetDof (GetFE0 (FESpace nodes)))
           (GetNPoints ir) (GetNE (FESpace nodes))
           (ext_dofToQuadD env (GetFE0 (FESpace nodes)) ir) mn = Inr (Jt, iJ, dJ)
      \<and> s' = s\<lparr>geom := Some (g\<lparr>meshNodes := mn, eMap := em, J := Jt, invJ := iJ, detJ := dJ\<rparr>),
                 mesh := (mesh s)\<lparr>GetNodes := Some nodesB\<rparr>,
                 trace := trace s @ [GatherNodes, IniGeom]\<rparr>)"
  unfolding Get_body_def Let_def
  by (auto simp: bnd_eq_Inr initialised_Inr_iff split: option.splits)

lemma geom_prologue: "\<exists>g. geom (Get_prologue env s) = Some g"
  by (auto simp: Get_prologue_def Let_def split: option.splits)

lemma mesh_prologue:
  "mesh (Get_prologue env s) =
     (case GetNodes (mesh s) of None \<Rightarrow> SetCurvature env 1 byVDIM (mesh s) | Some nodes \<Rightarrow> mesh s)"
  by (auto simp: Get_prologue_def Let_def split: option.splits)

lemma nodes_prologue: "GetNodes (mesh (Get_prologue env s)) = Some (Get_nodes env s)"
  by (simp add: mesh_prologue Get_nodes_def SetCurvature_def split: option.splits)


lemma tri_first_Get: "Get tri_env tri_ir (tri_world (Some tri_nodes_byNODES)) = Inr tri_world1"
  by code_simp

lemma tri_second_Get: "Get tri_env tri_ir tri_world1 = Inr tri_world2"
  by code_simp

text \<open>
  C2.  When the nodes of the mesh are a grid function in by-nodes ordering
  (with its \<open>ndofs * vdim\<close> cells) and \<open>Get\<close> returns, the mesh has the same
  grid function, cell for cell, as before the call, whatever the cache pointer
  was.
\<close>

theorem Get_restores_nodes:
  assumes "GetNodes (mesh s) = Some nodes"
    and "GetOrdering (FESpace nodes) = byNODES"
    and "length (GetData nodes) = GetNDofs (FESpace nodes) * GetVDim (FESpace nodes)"
    and "Get env ir s = Inr s'"
  shows "GetNodes (mesh s') = Some nodes"
proof -
  have n: "GetNodes (mesh (Get_prologue env s)) = Some nodes"
    using assms(1) by (simp add: nodes_prologue Get_nodes_def)
  from assms(4) n assms(2) obtain nodesV nodesB
    where "ReorderByVDim nodes = Inr nodesV" "ReorderByNodes nodesV = Inr nodesB"
      and "mesh s' = (mesh (Get_prologue env s))\<lparr>GetNodes := Some nodesB\<rparr>"
    by (auto simp: Get_split Get_body_Inr_iff)
  moreover from this(1,2) have "nodesB = nodes"
    using reorder_vdim_nodes [OF assms(3)] by simp
  ultimately show ?thesis by simp
qed


theorem Get_restores_nodes_witness:
  "GetNodes (mesh (tri_world (Some tri_nodes_byNODES))) = Some tri_nodes_byNODES
   \<and> GetOrdering (FESpace tri_nodes_byNODES) = byNODES
   \<and> length (GetData tri_nodes_byNODES)
       = GetNDofs (FESpace tri_nodes_byNODES) * GetVDim (FESpace tri_nodes_byNODES)
   \<and> Get tri_env tri_ir (tri_world (Some tri_nodes_byNODES)) = Inr tri_world1
   \<and> GetNodes (mesh tri_world1) = Some tri_nodes_byNODES
   \<and> Get tri_env tri_ir tri_world1 = Inr tri_world2
   \<and> GetNodes (mesh tri_world2) = Some tri_nodes_byNODES"
proof -
  have 1: "GetNodes (mesh (tri_world (Some tri_nodes_byNODES))) = Some tri_nodes_byNODES"
    by (simp add: tri_world_def initial_world_def)
  have 2: "GetOrdering (FESpace tri_nodes_byNODES) = byNODES"
    by (simp add: tri_nodes_byNODES_def tri_fes_def)
  have 3: "length (GetData tri_nodes_byNODES)
       = GetNDofs (FESpace tri_nodes_byNODES) * GetVDim (FESpace tri_nodes_byNODES)"
    by (simp add: tri_nodes_byNODES_def tri_fes_def)
  have 4: "GetNodes (mesh tri_world1) = Some tri_nodes_byNODES"
    using Get_restores_nodes [OF 1 2 3 tri_first_Get] .
  have 5: "GetNodes (mesh tri_world2) = Some tri_nodes_byNODES"
    using Get_restores_nodes [OF 4 2 3 tri_second_Get] .
  from 1 2 3 4 5 tri_first_Get tri_second_Get show ?thesis by simp
qed

text \<open>
  C4.  When \<open>Get\<close> returns, the cache holds, for every element \<open>e\<close> and local
  dof \<open>d\<close>, the global dof \<open>elementMap[d + numDofs*e]\<close> in \<open>eMap[d + numDofs*e]\<close>
  and, for every component \<open>v < dims\<close>, the cell \<open>v + dims*gid\<close> of the nodes
  in by-vdim ordering in \<open>meshNodes[v + dims*(d + numDofs*e)]\<close>; all these
  cells exist.
\<close>

theorem Get_gathers:
  assumes "Get env ir s = Inr s'"
    and "nodes = Get_nodes env s"
    and "dims = GetDim (GetFE0 (FESpace nodes))"
    and "numDofs = GetDof (GetFE0 (FESpace nodes))"
    and "elementMap = ElementToDofJ (FESpace nodes)"
  shows "\<exists>g nodesV.
           geom s' = Some g
         \<and> when_do (GetOrdering (FESpace nodes) = byNODES) ReorderByVDim nodes = Inr nodesV
         \<and> length (eMap g) = numDofs * GetNE (FESpace nodes)
         \<and> length (meshNodes g) = dims * numDofs * GetNE (FESpace nodes)
         \<and> (\<forall>e<GetNE (FESpace nodes). \<forall>d<numDofs.
               d + numDofs * e < length elementMap
             \<and> eMap g ! (d + numDofs * e) = elementMap ! (d + numDofs * e)
             \<and> (\<forall>v<dims.
                   0 \<le> int v + int dims * elementMap ! (d + numDofs * e)
                 \<and> nat (int v + int dims * elementMap ! (d + numDofs * e)) < length (GetData nodesV)
                 \<and> meshNodes g ! (v + dims * (d + numDofs * e))
                     = GetData nodesV ! nat (int v + int dims * elementMap ! (d + numDofs * e))))"
proof -
  let ?nE = "GetNE (FESpace nodes)"
  have n: "GetNodes (mesh (Get_prologue env s)) = Some nodes"
    using assms(2) by (simp add: nodes_prologue)
  from assms(1) n obtain g nodesV em mn
    where g: "geom s' = Some g" "eMap g = em" "meshNodes g = mn"
      and v: "when_do (GetOrdering (FESpace nodes) = byNODES) ReorderByVDim nodes = Inr nodesV"
      and ga: "gather dims numDofs ?nE elementMap (GetData nodesV) = Inr (map Some em, map Some mn)"
    unfolding assms(3-5) by (auto simp: Get_split Get_body_Inr_iff)
  note D = gather_Inr_D [OF ga]
  have lens: "length em = numDofs * ?nE" "length mn = dims * numDofs * ?nE"
    using D by simp_all
  have cell: "d + numDofs * e < length elementMap
             \<and> em ! (d + numDofs * e) = elementMap ! (d + numDofs * e)
             \<and> (\<forall>v<dims.
                   0 \<le> int v + int dims * elementMap ! (d + numDofs * e)
                 \<and> nat (int v + int dims * elementMap ! (d + numDofs * e)) < length (GetData nodesV)
                 \<and> mn ! (v + dims * (d + numDofs * e))
                     = GetData nodesV ! nat (int v + int dims * elementMap ! (d + numDofs * e)))"
    if e: "e < ?nE" and d: "d < numDofs" for e d
  proof -
    let ?L = "d + numDofs * e"
    have L: "?L < numDofs * ?nE" using cell_lt [OF d e] .
    with D have 1: "?L < length elementMap" "map Some em ! ?L = Some (elementMap ! ?L)"
      and 2: "\<forall>v<dims. 0 \<le> int v + int dims * elementMap ! ?L
                   \<and> nat (int v + int dims * elementMap ! ?L) < length (GetData nodesV)
                   \<and> map Some mn ! (v + dims * ?L)
                       = Some (GetData nodesV ! nat (int v + int dims * elementMap ! ?L))"
      by blast+
    have "em ! ?L = elementMap ! ?L" using 1(2) L lens by simp
    moreover have "mn ! (v + dims * ?L) = GetData nodesV ! nat (int v + int dims * elementMap ! ?L)"
      if v: "v < dims" for v
    proof -
      have "v + dims * ?L < dims * (numDofs * ?nE)" using cell_lt [OF v L] .
      then have "v + dims * ?L < length mn" using lens by (simp add: mult.assoc)
      with 2 v show ?thesis by auto
    qed
    ultimately show ?thesis using 1(1) 2 by blast
  qed
  show ?thesis using g v lens cell by blast
qed

theorem Get_gathers_witness:
  "Get tri_env tri_ir (tri_world (Some tri_nodes_byNODES)) = Inr tri_world1
   \<and> (\<exists>g nodesV. geom tri_world1 = Some g
        \<and> ReorderByVDim tri_nodes_byNODES = Inr nodesV
        \<and> eMap g ! 4 = ElementToDofJ (tri_fes byNODES) ! 4
        \<and> meshNodes g ! 9 = GetData nodesV ! 7)"
proof -
  let ?nodes = "Get_nodes tri_env (tri_world (Some tri_nodes_byNODES))"
  have n: "?nodes = tri_nodes_byNODES" by (simp add: Get_nodes_def tri_world_def initial_world_def)
  have f: "FESpace tri_nodes_byNODES = tri_fes byNODES" by (simp add: tri_nodes_byNODES_def)
  from Get_gathers [OF tri_first_Get refl refl refl refl]
  obtain g nodesV where g: "geom tri_world1 = Some g"
    and v: "when_do (GetOrdering (FESpace ?nodes) = byNODES) ReorderByVDim ?nodes = Inr nodesV"
    and c: "\<forall>e<GetNE (FESpace ?nodes). \<forall>d<GetDof (GetFE0 (FESpace ?nodes)).
               d + GetDof (GetFE0 (FESpace ?nodes)) * e < length (ElementToDofJ (FESpace ?nodes))
             \<and> eMap g ! (d + GetDof (GetFE0 (FESpace ?nodes)) * e)
                 = ElementToDofJ (FESpace ?nodes) ! (d + GetDof (GetFE0 (FESpace ?nodes)) * e)
             \<and> (\<forall>v<GetDim (GetFE0 (FESpace ?nodes)).
                   0 \<le> int v + int (GetDim (GetFE0 (FESpace ?nodes)))
                          * ElementToDofJ (FESpace ?nodes) ! (d + GetDof (GetFE0 (FESpace ?nodes)) * e)
                 \<and> nat (int v + int (GetDim (GetFE0 (FESpace ?nodes)))
                          * ElementToDofJ (FESpace ?nodes) ! (d + GetDof (GetFE0 (FESpace ?nodes)) * e))
                     < length (GetData nodesV)
                 \<and> meshNodes g ! (v + GetDim (GetFE0 (FESpace ?nodes))
                                      * (d + GetDof (GetFE0 (FESpace ?nodes)) * e))
                     = GetData nodesV ! nat (int v + int (GetDim (GetFE0 (FESpace ?nodes)))
                          * ElementToDofJ (FESpace ?nodes) ! (d + GetDof (GetFE0 (FESpace ?nodes)) * e)))"
    by blast
  from v have v': "ReorderByVDim tri_nodes_byNODES = Inr nodesV"
    by (simp add: n f tri_fes_def)
  from c [rule_format, of 1 1] have "eMap g ! 4 = ElementToDofJ (tri_fes byNODES) ! 4"
    and "\<forall>v<2. meshNodes g ! (v + 2 * 4) = GetData nodesV ! nat (int v + 2 * 3)"
    by (simp_all add: n f tri_fes_def tri_fe_def)
  then have "eMap g ! 4 = ElementToDofJ (tri_fes byNODES) ! 4"
    and "meshNodes g ! 9 = GetData nodesV ! 7"
    by (simp_all add: numeral_eq_Suc)
  with g v' tri_first_Get show ?thesis by blast
qed

section \<open>\<open>Get\<close> on a mesh without nodes\<close>

lemma prologue_no_nodes:
  assumes "GetNodes (mesh s) = None"
  shows "mesh (Get_prologue env s) = (mesh s)\<lparr>GetNodes := Some (ext_nodal_gf env 1 byVDIM (mesh s))\<rparr>"
    and "CurvatureUpgrade \<in> set (trace (Get_prologue env s))"
  using assms by (auto simp: Get_prologue_def Let_def SetCurvature_def split: option.splits)

text \<open>
  C7.  When the mesh has no nodes, \<open>Get\<close> does not fail on that account: it
  calls \<open>SetCurvature(1, false, -1, Ordering::byVDIM)\<close>, whose grid function
  stays in the mesh, gathers the node coordinates from it and calls the kernel
  on them.  The grid function is taken to be in by-vdim ordering with a
  connectivity table that stays inside it, the kernel to return, and the
  sizes \<open>dims\<close>, \<open>numDofs\<close>, \<open>elements\<close>, their products \<open>dims*numDofs\<close>,
  \<open>dims*numDofs*elements\<close> and \<open>numDofs*elements\<close> and the size of the grid
  function to fit an \<open>int\<close>; then every index and every product that the
  gather computes fits an \<open>int\<close> as well.
\<close>

theorem Get_without_nodes:
  assumes none: "GetNodes (mesh s) = None"
    and nodes: "nodes = ext_nodal_gf env 1 byVDIM (mesh s)"
    and ordr: "GetOrdering (FESpace nodes) = byVDIM"
    and abbr: "dims = GetDim (GetFE0 (FESpace nodes))" "numDofs = GetDof (GetFE0 (FESpace nodes))"
      "elements = GetNE (FESpace nodes)" "elementMap = ElementToDofJ (FESpace nodes)"
    and len: "numDofs * elements \<le> length elementMap"
    and rng: "\<forall>lid<numDofs * elements. \<forall>v<dims. 0 \<le> int v + int dims * elementMap ! lid
                \<and> nat (int v + int dims * elementMap ! lid) < length (GetData nodes)"
    and kernel: "\<forall>mn. length mn = dims * numDofs * elements \<longrightarrow>
                   (\<exists>r. ext_rIniGeom env dims numDofs (GetNPoints ir) elements
                          (ext_dofToQuadD env (GetFE0 (FESpace nodes)) ir) mn = Inr r)"
    and fit: "fits_int dims" "fits_int numDofs" "fits_int elements" "fits_int (dims * numDofs)"
      "fits_int (dims * numDofs * elements)" "fits_int (numDofs * elements)"
      "fits_int (length (GetData nodes))"
  shows "\<exists>s' g. Get env ir s = Inr s'
           \<and> GetNodes (mesh s') = Some nodes
           \<and> CurvatureUpgrade \<in> set (trace s')
           \<and> geom s' = Some g
           \<and> length (meshNodes g) = dims * numDofs * elements
           \<and> (\<forall>lid<numDofs * elements. \<forall>v<dims. meshNodes g ! (v + dims * lid)
                  = GetData nodes ! nat (int v + int dims * elementMap ! lid))
           \<and> ext_rIniGeom env dims numDofs (GetNPoints ir) elements
                (ext_dofToQuadD env (GetFE0 (FESpace nodes)) ir) (meshNodes g)
               = Inr (J g, invJ g, detJ g)
           \<and> (\<forall>e<elements. \<forall>d<numDofs.
                  fits_int (numDofs * e) \<and> fits_int (d + numDofs * e)
                \<and> (\<forall>v<dims.
                      fits_int (dims * (d + numDofs * e))
                    \<and> fits_int (v + dims * (d + numDofs * e))
                    \<and> - 2147483647 \<le> int dims * elementMap ! (d + numDofs * e)
                    \<and> int dims * elementMap ! (d + numDofs * e) \<le> 2147483647
                    \<and> int v + int dims * elementMap ! (d + numDofs * e) \<le> 2147483647))"
proof -
  let ?s0 = "Get_prologue env s"
  have m0: "GetNodes (mesh ?s0) = Some nodes"
    using none nodes by (simp add: nodes_prologue Get_nodes_def)
  obtain g0 where g0: "geom ?s0 = Some g0" using geom_prologue by blast
  from gather_succeeds [OF len rng] obtain em0 mn0
    where "gather dims numDofs elements elementMap (GetData nodes) = Inr (em0, mn0)" by force
  moreover from gather_Inr_map_Some [OF this] obtain em mn
    where "em0 = map Some em" "mn0 = map Some mn" by blast
  ultimately have ga: "gather dims numDofs elements elementMap (GetData nodes)
      = Inr (map Some em, map Some mn)" by simp
  note D = gather_Inr_D [OF ga]
  have lmn: "length mn = dims * numDofs * elements" using D by simp
  with kernel obtain Jt iJ dJ
    where k: "ext_rIniGeom env dims numDofs (GetNPoints ir) elements
                (ext_dofToQuadD env (GetFE0 (FESpace nodes)) ir) mn = Inr (Jt, iJ, dJ)"
    by (metis prod_cases3)
  let ?g = "g0\<lparr>meshNodes := mn, eMap := em, J := Jt, invJ := iJ, detJ := dJ\<rparr>"
  let ?s' = "?s0\<lparr>geom := Some ?g, mesh := (mesh ?s0)\<lparr>GetNodes := Some nodes\<rparr>,
                  trace := trace ?s0 @ [GatherNodes, IniGeom]\<rparr>"
  have "Get_body env ir ?s0 = Inr ?s'"
    unfolding Get_body_Inr_iff using m0 g0 ordr ga k by (simp add: abbr)
  then have 1: "Get env ir s = Inr ?s'" by (simp add: Get_split)
  have 2: "\<forall>lid<numDofs * elements. \<forall>v<dims. mn ! (v + dims * lid)
                  = GetData nodes ! nat (int v + int dims * elementMap ! lid)"
  proof (intro allI impI)
    fix lid v assume l: "lid < numDofs * elements" and v: "v < dims"
    have "v + dims * lid < dims * (numDofs * elements)" using cell_lt [OF v l] .
    then have "v + dims * lid < length mn" using lmn by (simp add: mult.assoc)
    moreover from D l v have "map Some mn ! (v + dims * lid)
        = Some (GetData nodes ! nat (int v + int dims * elementMap ! lid))" by blast
    ultimately show "mn ! (v + dims * lid)
        = GetData nodes ! nat (int v + int dims * elementMap ! lid)" by simp
  qed
  have 3: "CurvatureUpgrade \<in> set (trace ?s')"
    using prologue_no_nodes(2) [OF none, of env] by simp
  have 4: "fits_int (numDofs * e) \<and> fits_int (d + numDofs * e)
                \<and> (\<forall>v<dims.
                      fits_int (dims * (d + numDofs * e))
                    \<and> fits_int (v + dims * (d + numDofs * e))
                    \<and> - 2147483647 \<le> int dims * elementMap ! (d + numDofs * e)
                    \<and> int dims * elementMap ! (d + numDofs * e) \<le> 2147483647
                    \<and> int v + int dims * elementMap ! (d + numDofs * e) \<le> 2147483647)"
    if e: "e < elements" and d: "d < numDofs" for e d
  proof -
    let ?L = "d + numDofs * e"
    have L: "?L < numDofs * elements" using cell_lt [OF d e] .
    then have a: "fits_int (numDofs * e)" "fits_int ?L"
      using fit(6) by (simp_all add: fits_int_def)
    have b: "fits_int (dims * ?L) \<and> fits_int (v + dims * ?L)
        \<and> - 2147483647 \<le> int dims * elementMap ! ?L
        \<and> int dims * elementMap ! ?L \<le> 2147483647
        \<and> int v + int dims * elementMap ! ?L \<le> 2147483647" if v: "v < dims" for v
    proof -
      have "v + dims * ?L < dims * (numDofs * elements)" using cell_lt [OF v L] .
      then have m: "v + dims * ?L < dims * numDofs * elements" by (simp add: mult.assoc)
      from rng L v have x: "0 \<le> int v + int dims * elementMap ! ?L"
        "nat (int v + int dims * elementMap ! ?L) < length (GetData nodes)" by blast+
      from x(2) fit(7) have "int v + int dims * elementMap ! ?L \<le> 2147483647"
        by (simp add: fits_int_def)
      moreover from x(1) v fit(1) have "- 2147483647 \<le> int dims * elementMap ! ?L"
        by (simp add: fits_int_def)
      ultimately show ?thesis using m fit(5) by (simp add: fits_int_def)
    qed
    from a b show ?thesis by blast
  qed
  show ?thesis
    using 1 2 3 4 lmn k by (intro exI [of _ ?s'] exI [of _ ?g]) simp
qed

lemma tri_rng:
  "\<forall>lid<3 * 2. \<forall>v<2. 0 \<le> int v + int 2 * [0, 1, 2, 1, 3, 2] ! lid
                \<and> nat (int v + int 2 * [0, 1, 2, 1, 3, 2] ! lid) < length [0, 0, 2, 0, 0, 1, 2, 1 :: real]"
  by (auto simp: less_Suc_eq numeral_eq_Suc nth_Cons')

theorem Get_without_nodes_witness:
  "GetNodes (mesh (tri_world None)) = None
   \<and> fits_int (2 * 3 * 2) \<and> fits_int (length (GetData tri_nodes_byVDIM))
   \<and> (\<exists>s' g. Get tri_env tri_ir (tri_world None) = Inr s'
         \<and> GetNodes (mesh s') = Some tri_nodes_byVDIM
         \<and> CurvatureUpgrade \<in> set (trace s')
         \<and> geom s' = Some g
         \<and> rIniGeom 2 3 1 2 [-1, -1, 1, 0, 0, 1] (meshNodes g) = Inr (J g, invJ g, detJ g))"
proof -
  have none: "GetNodes (mesh (tri_world None)) = None" by (simp add: tri_world_def initial_world_def)
  have nodes: "tri_nodes_byVDIM = ext_nodal_gf tri_env 1 byVDIM (mesh (tri_world None))"
    by (simp add: tri_env_def)
  have ordr: "GetOrdering (FESpace tri_nodes_byVDIM) = byVDIM"
    by (simp add: tri_nodes_byVDIM_def tri_fes_def)
  have len: "GetDof (GetFE0 (FESpace tri_nodes_byVDIM)) * GetNE (FESpace tri_nodes_byVDIM)
      \<le> length (ElementToDofJ (FESpace tri_nodes_byVDIM))"
    by (simp add: tri_nodes_byVDIM_def tri_fes_def tri_fe_def)
  have rng: "\<forall>lid<GetDof (GetFE0 (FESpace tri_nodes_byVDIM)) * GetNE (FESpace tri_nodes_byVDIM).
      \<forall>v<GetDim (GetFE0 (FESpace tri_nodes_byVDIM)).
        0 \<le> int v + int (GetDim (GetFE0 (FESpace tri_nodes_byVDIM)))
               * ElementToDofJ (FESpace tri_nodes_byVDIM) ! lid
      \<and> nat (int v + int (GetDim (GetFE0 (FESpace tri_nodes_byVDIM)))
               * ElementToDofJ (FESpace tri_nodes_byVDIM) ! lid)
          < length (GetData tri_nodes_byVDIM)"
    using tri_rng by (simp add: tri_nodes_byVDIM_def tri_fes_def tri_fe_def)
  have kernel: "\<forall>mn. length mn = GetDim (GetFE0 (FESpace tri_nodes_byVDIM))
        * GetDof (GetFE0 (FESpace tri_nodes_byVDIM)) * GetNE (FESpace tri_nodes_byVDIM) \<longrightarrow>
      (\<exists>r. ext_rIniGeom tri_env (GetDim (GetFE0 (FESpace tri_nodes_byVDIM)))
              (GetDof (GetFE0 (FESpace tri_nodes_byVDIM))) (GetNPoints tri_ir)
              (GetNE (FESpace tri_nodes_byVDIM))
              (ext_dofToQuadD tri_env (GetFE0 (FESpace tri_nodes_byVDIM)) tri_ir) mn = Inr r)"
    by (simp add: tri_nodes_byVDIM_def tri_fes_def tri_fe_def tri_env_def tri_ir_def
        GetNPoints_def rIniGeom_def Let_def)
  have fit: "fits_int (GetDim (GetFE0 (FESpace tri_nodes_byVDIM)))"
    "fits_int (GetDof (GetFE0 (FESpace tri_nodes_byVDIM)))"
    "fits_int (GetNE (FESpace tri_nodes_byVDIM))"
    "fits_int (GetDim (GetFE0 (FESpace tri_nodes_byVDIM))
       * GetDof (GetFE0 (FESpace tri_nodes_byVDIM)))"
    "fits_int (GetDim (GetFE0 (FESpace tri_nodes_byVDIM))
       * GetDof (GetFE0 (FESpace tri_nodes_byVDIM)) * GetNE (FESpace tri_nodes_byVDIM))"
    "fits_int (GetDof (GetFE0 (FESpace tri_nodes_byVDIM)) * GetNE (FESpace tri_nodes_byVDIM))"
    "fits_int (length (GetData tri_nodes_byVDIM))"
    by (simp_all add: fits_int_def tri_nodes_byVDIM_def tri_fes_def tri_fe_def)
  from Get_without_nodes [OF none nodes ordr refl refl refl refl len rng kernel fit]
  obtain s' g where "Get tri_env tri_ir (tri_world None) = Inr s'"
    "GetNodes (mesh s') = Some tri_nodes_byVDIM" "CurvatureUpgrade \<in> set (trace s')"
    "geom s' = Some g"
    "ext_rIniGeom tri_env (GetDim (GetFE0 (FESpace tri_nodes_byVDIM)))
              (GetDof (GetFE0 (FESpace tri_nodes_byVDIM))) (GetNPoints tri_ir)
              (GetNE (FESpace tri_nodes_byVDIM))
              (ext_dofToQuadD tri_env (GetFE0 (FESpace tri_nodes_byVDIM)) tri_ir) (meshNodes g)
       = Inr (J g, invJ g, detJ g)"
    by blast
  moreover from this(5) have "rIniGeom 2 3 1 2 [-1, -1, 1, 0, 0, 1] (meshNodes g)
      = Inr (J g, invJ g, detJ g)"
    by (simp add: tri_nodes_byVDIM_def tri_fes_def tri_fe_def tri_env_def tri_ir_def GetNPoints_def)
  moreover have "fits_int (2 * 3 * 2)" "fits_int (length (GetData tri_nodes_byVDIM))"
    by (simp_all add: fits_int_def tri_nodes_byVDIM_def)
  ultimately show ?thesis using none by blast
qed

section \<open>A second \<open>Get\<close> on an unchanged mesh\<close>

lemma prologue_cache_hit:
  assumes "geom s = Some g" and "\<not> ext_GeomNeedsUpdate env (GetSequence (mesh s))"
    and "GetNodes (mesh s) = Some nodes"
  shows "Get_prologue env s = s"
  using assms by (simp add: Get_prologue_def)

text \<open>
  C3 as stated does not hold: on the mesh of two triangles the second \<open>Get\<close>,
  with the sequence number unchanged and no update needed, runs the gather
  loop and the geometry kernel again.
\<close>

theorem Get_again_counterexample:
  "Get tri_env tri_ir (tri_world (Some tri_nodes_byNODES)) = Inr tri_world1
   \<and> GetSequence (mesh tri_world1) = GetSequence (mesh (tri_world (Some tri_nodes_byNODES)))
   \<and> Get tri_env tri_ir tri_world1 = Inr tri_world2
   \<and> runs GatherNodes tri_world2 \<noteq> runs GatherNodes tri_world1
   \<and> runs IniGeom tri_world2 \<noteq> runs IniGeom tri_world1"
  using tri_first_Get tri_second_Get
  by (simp add: runs_def tri_world2_def tri_world1_def tri_world_def initial_world_def)

text \<open>
  C3, amended.  When a \<open>Get\<close> has returned and \<open>GeomNeedsUpdate\<close> reports no
  change for the sequence number of the mesh, a second \<open>Get\<close> on the state the
  first one left returns, allocates no new cache object, runs the gather loop
  and the kernel once more, and leaves the cache and the mesh with the same
  contents as after the first call.
\<close>

theorem Get_again:
  assumes first: "Get env ir s = Inr s1"
    and same: "\<not> ext_GeomNeedsUpdate env (GetSequence (mesh s1))"
    and wf: "length (GetData (Get_nodes env s))
               = GetNDofs (FESpace (Get_nodes env s)) * GetVDim (FESpace (Get_nodes env s))"
  shows "Get env ir s1 = Inr (s1\<lparr>trace := trace s1 @ [GatherNodes, IniGeom]\<rparr>)
       \<and> runs NewGeometry (s1\<lparr>trace := trace s1 @ [GatherNodes, IniGeom]\<rparr>) = runs NewGeometry s1
       \<and> runs GatherNodes (s1\<lparr>trace := trace s1 @ [GatherNodes, IniGeom]\<rparr>) = Suc (runs GatherNodes s1)
       \<and> runs IniGeom (s1\<lparr>trace := trace s1 @ [GatherNodes, IniGeom]\<rparr>) = Suc (runs IniGeom s1)"
proof -
  let ?s0 = "Get_prologue env s" and ?nodes = "Get_nodes env s"
  let ?byN = "GetOrdering (FESpace ?nodes) = byNODES"
  from first obtain g nodesV em mn nodesB Jt iJ dJ
    where g: "geom ?s0 = Some g"
      and v: "when_do ?byN ReorderByVDim ?nodes = Inr nodesV"
      and ga: "gather (GetDim (GetFE0 (FESpace ?nodes))) (GetDof (GetFE0 (FESpace ?nodes)))
           (GetNE (FESpace ?nodes)) (ElementToDofJ (FESpace ?nodes)) (GetData nodesV)
          = Inr (map Some em, map Some mn)"
      and b: "when_do ?byN ReorderByNodes nodesV = Inr nodesB"
      and k: "ext_rIniGeom env (GetDim (GetFE0 (FESpace ?nodes))) (GetDof (GetFE0 (FESpace ?nodes)))
           (GetNPoints ir) (GetNE (FESpace ?nodes))
           (ext_dofToQuadD env (GetFE0 (FESpace ?nodes)) ir) mn = Inr (Jt, iJ, dJ)"
      and s1: "s1 = ?s0\<lparr>geom := Some (g\<lparr>meshNodes := mn, eMap := em, J := Jt, invJ := iJ, detJ := dJ\<rparr>),
                 mesh := (mesh ?s0)\<lparr>GetNodes := Some nodesB\<rparr>,
                 trace := trace ?s0 @ [GatherNodes, IniGeom]\<rparr>"
    by (auto simp: Get_split Get_body_Inr_iff nodes_prologue)
  have restored: "nodesB = ?nodes"
  proof (cases ?byN)
    case True
    with v b reorder_vdim_nodes [OF wf] show ?thesis by simp
  next
    case False
    with v b show ?thesis by simp
  qed
  have p: "Get_prologue env s1 = s1"
    using same by (intro prologue_cache_hit [where nodes = nodesB]) (simp_all add: s1)
  have n1: "GetNodes (mesh s1) = Some ?nodes" by (simp add: s1 restored)
  have g1: "geom s1 = Some (g\<lparr>meshNodes := mn, eMap := em, J := Jt, invJ := iJ, detJ := dJ\<rparr>)"
    by (simp add: s1)
  have "Get_body env ir s1 = Inr (s1\<lparr>trace := trace s1 @ [GatherNodes, IniGeom]\<rparr>)"
    unfolding Get_body_Inr_iff
    using n1 g1 v ga b k restored by (simp add: s1)
  then have "Get env ir s1 = Inr (s1\<lparr>trace := trace s1 @ [GatherNodes, IniGeom]\<rparr>)"
    using p by (simp add: Get_split)
  then show ?thesis by (simp add: runs_def)
qed

theorem Get_again_witness:
  "Get tri_env tri_ir (tri_world (Some tri_nodes_byNODES)) = Inr tri_world1
   \<and> \<not> ext_GeomNeedsUpdate tri_env (GetSequence (mesh tri_world1))
   \<and> Get tri_env tri_ir tri_world1 = Inr (tri_world1\<lparr>trace := trace tri_world1 @ [GatherNodes, IniGeom]\<rparr>)
   \<and> runs NewGeometry (tri_world1\<lparr>trace := trace tri_world1 @ [GatherNodes, IniGeom]\<rparr>) = 1
   \<and> runs IniGeom (tri_world1\<lparr>trace := trace tri_world1 @ [GatherNodes, IniGeom]\<rparr>) = 2"
proof -
  have same: "\<not> ext_GeomNeedsUpdate tri_env (GetSequence (mesh tri_world1))"
    by (simp add: tri_env_def tri_world1_def)
  have wf: "length (GetData (Get_nodes tri_env (tri_world (Some tri_nodes_byNODES))))
      = GetNDofs (FESpace (Get_nodes tri_env (tri_world (Some tri_nodes_byNODES))))
        * GetVDim (FESpace (Get_nodes tri_env (tri_world (Some tri_nodes_byNODES))))"
    by (simp add: Get_nodes_def tri_world_def initial_world_def tri_nodes_byNODES_def tri_fes_def)
  have "runs NewGeometry tri_world1 = 1" "runs IniGeom tri_world1 = 1"
    by (simp_all add: runs_def tri_world1_def)
  with Get_again [OF tri_first_Get same wf] tri_first_Get same show ?thesis by simp
qed

section \<open>The vector-mode \<open>Get\<close>\<close>

text \<open>
  C9.  The vector-mode \<open>Get\<close> fails with a null pointer dereference in the
  state before any call and whenever the cache pointer is null; when it
  returns there was a cache object, whose
  \<open>eMap\<close> it keeps, it has changed neither the mesh nor allocated anything,
  and \<open>GeomNeedsUpdate\<close> has no influence on it.
\<close>

theorem Get_Sx_needs_cache:
  "Get_Sx env ir Sx (initial_world m) = Inl NullPointer
   \<and> (geom s = None \<longrightarrow> Get_Sx env ir Sx s = Inl NullPointer)
   \<and> (\<forall>s'. Get_Sx env ir Sx s = Inr s' \<longrightarrow>
         (\<exists>g g'. geom s = Some g \<and> geom s' = Some g' \<and> eMap g' = eMap g)
         \<and> mesh s' = mesh s
         \<and> trace s' = trace s @ [GatherNodes, IniGeom])
   \<and> Get_Sx (env\<lparr>ext_GeomNeedsUpdate := f\<rparr>) ir Sx s = Get_Sx env ir Sx s"
proof (intro conjI allI impI)
  show "Get_Sx env ir Sx (initial_world m) = Inl NullPointer"
    by (simp add: Get_Sx_def initial_world_def Let_def split: option.splits)
next
  assume "geom s = None"
  then show "Get_Sx env ir Sx s = Inl NullPointer"
    by (simp add: Get_Sx_def Let_def split: option.splits)
next
  fix s' assume r: "Get_Sx env ir Sx s = Inr s'"
  then obtain nodes g where n: "GetNodes (mesh s) = Some nodes" and g: "geom s = Some g"
    by (auto simp: Get_Sx_def Let_def split: option.splits)
  from r obtain mn Jt iJ dJ
    where s': "s' = s\<lparr>geom := Some (g\<lparr>meshNodes := mn, J := Jt, invJ := iJ, detJ := dJ\<rparr>),
                      trace := trace s @ [GatherNodes, IniGeom]\<rparr>"
    by (auto simp: Get_Sx_def Let_def n g bnd_eq_Inr)
  show "\<exists>g g'. geom s = Some g \<and> geom s' = Some g' \<and> eMap g' = eMap g"
    using g by (simp add: s')
  show "mesh s' = mesh s" by (simp add: s')
  show "trace s' = trace s @ [GatherNodes, IniGeom]" by (simp add: s')
next
  show "Get_Sx (env\<lparr>ext_GeomNeedsUpdate := f\<rparr>) ir Sx s = Get_Sx env ir Sx s"
    by (simp add: Get_Sx_def Let_def split: option.splits)
qed

theorem Get_Sx_needs_cache_witness:
  "Get_Sx tri_env tri_ir tri_Sx (initial_world \<lparr>GetSequence = 0, GetNodes = Some tri_nodes_byVDIM\<rparr>)
     = Inl NullPointer
   \<and> geom (tri_world (Some tri_nodes_byVDIM)) = None
   \<and> Get_Sx tri_env tri_ir tri_Sx (tri_world (Some tri_nodes_byVDIM)) = Inl NullPointer
   \<and> Get_Sx tri_env tri_ir tri_Sx tri_world1
       = Inr (tri_world1\<lparr>geom := Some (tri_geom\<lparr>meshNodes := [0, 0, 4, 0, 0, 2, 4, 0, 4, 2, 0, 2],
                 J := [4, 0, 0, 2, 0, 2, - 4, 2],
                 invJ := [1 / 4, 0, 0, 1 / 2, 1 / 4, - (1 / 4), 1 / 2, 0], detJ := [8, 8]\<rparr>),
               trace := trace tri_world1 @ [GatherNodes, IniGeom]\<rparr>)
   \<and> (\<exists>g. geom tri_world1 = Some g)"
proof -
  have none: "geom (tri_world (Some tri_nodes_byVDIM)) = None"
    by (simp add: tri_world_def initial_world_def)
  have run: "Get_Sx tri_env tri_ir tri_Sx tri_world1
       = Inr (tri_world1\<lparr>geom := Some (tri_geom\<lparr>meshNodes := [0, 0, 4, 0, 0, 2, 4, 0, 4, 2, 0, 2],
                 J := [4, 0, 0, 2, 0, 2, - 4, 2],
                 invJ := [1 / 4, 0, 0, 1 / 2, 1 / 4, - (1 / 4), 1 / 2, 0], detJ := [8, 8]\<rparr>),
               trace := trace tri_world1 @ [GatherNodes, IniGeom]\<rparr>)"
    by code_simp
  note a = Get_Sx_needs_cache [where s = "tri_world (Some tri_nodes_byVDIM)" and env = tri_env
      and ir = tri_ir and Sx = tri_Sx
      and m = "\<lparr>GetSequence = 0, GetNodes = Some tri_nodes_byVDIM\<rparr>"]
  note b = Get_Sx_needs_cache [where s = tri_world1 and env = tri_env and ir = tri_ir
      and Sx = tri_Sx]
  from a have 0: "Get_Sx tri_env tri_ir tri_Sx
      (initial_world \<lparr>GetSequence = 0, GetNodes = Some tri_nodes_byVDIM\<rparr>) = Inl NullPointer"
    by blast
  from a none
  have 1: "Get_Sx tri_env tri_ir tri_Sx (tri_world (Some tri_nodes_byVDIM)) = Inl NullPointer"
    by blast
  from b run have 2: "\<exists>g. geom tri_world1 = Some g" by blast
  from 0 none 1 run 2 show ?thesis by simp
qed

section \<open>The coefficient of the mass equation\<close>

text \<open>
  C5.  Both overloads of \<open>HostMassEq::evalD\<close> assign to \<open>D_ek\<close> the product of
  the weight of the quadrature point and \<open>det(J_ek)\<close>, whatever \<open>D_ek\<close>, the
  dimension, \<open>k\<close>, \<open>e\<close> and the element transformation are.
\<close>

theorem HostMassEq_evalD_product:
  "HostMassEq_evalD det D_ek dimn k e Tr ip J_ek = weight ip * det J_ek
   \<and> HostMassEq_evalD_info det D_ek
        \<lparr>qi_dim = dimn, qi_k = k, qi_e = e, qi_tr = Tr, qi_ip = ip, qi_J_ek = J_ek\<rparr>
      = weight ip * det J_ek"
  by (simp add: HostMassEq_evalD_def HostMassEq_evalD_info_def)

section \<open>The Jacobians of a linear mesh\<close>

lemma read_view_map_upt:
  assumes "off + n \<le> N"
  shows "read_view (map f [0..<N]) off n = Inr (map (\<lambda>i. f (off + i)) [0..<n])"
proof -
  have "take n (drop off (map f [0..<N])) = map (\<lambda>i. f (off + i)) [0..<n]"
    using assms by (intro nth_equalityI) simp_all
  then show ?thesis using assms by (simp add: read_view_def)
qed

lemma MeshJac_call_eq:
  assumes "e < nbElts" and "k < quads"
  shows "MeshJac_call (new_MeshJac EvalJacobians fes dimn quads nbElts ir_order) e k
       = Inr (map (\<lambda>i. EvalJacobians dimn fes ir_order (dimn * (dimn * (k + quads * e)) + i))
                [0..<dimn * dimn])"
proof -
  have "k + quads * e < quads * nbElts" using cell_lt [OF assms(2,1)] .
  then have "Suc (k + quads * e) \<le> quads * nbElts" by simp
  then have "dimn * dimn * Suc (k + quads * e) \<le> dimn * dimn * (quads * nbElts)"
    by (rule mult_le_mono2)
  then have "dimn * (dimn * (k + quads * e)) + dimn * dimn \<le> dimn * dimn * quads * nbElts"
    by (simp add: algebra_simps)
  from read_view_map_upt [OF this] show ?thesis
    by (simp add: MeshJac_call_def new_MeshJac_def)
qed

lemma slice_assign_same:
  assumes "off + length vs \<le> length xs"
  shows "take (length vs) (drop off (take off xs @ vs @ drop (off + length vs) xs)) = vs"
  using assms by simp

lemma slice_assign_before:
  assumes "a + n \<le> off" and "off \<le> length xs"
  shows "take n (drop a (take off xs @ ys)) = take n (drop a xs)"
proof -
  have "take n (drop a (take off xs @ ys)) = take n (drop a (take off xs))"
    using assms by simp
  also have "\<dots> = take n (take (off - a) (drop a xs))"
    by (simp add: drop_take)
  also have "\<dots> = take n (drop a xs)"
    using assms by (simp add: min_def)
  finally show ?thesis .
qed

lemma initialised_map_comp: "initialised (map (Some \<circ> f) xs) = Inr (map f xs)"
  using initialised_map_Some [of "map f xs"] by simp

text \<open>
  C10.  With at least one quadrature point, the constructor of the linear
  \<open>MeshJac\<close> returns a tensor of one \<open>dim \<times> dim\<close> matrix per element, and for
  every element \<open>e\<close> and every \<open>k\<close> the call \<open>(e, k)\<close> gives the matrix that
  the full per-quadrature-point \<open>MeshJac\<close> has at \<open>(e, 0)\<close>.
\<close>

theorem MeshJacLinear_constant:
  assumes "0 < quads"
  shows "\<exists>mj. new_MeshJacLinear EvalJacobians fes dimn quads nbElts ir_order = Inr mj
     \<and> sizes (lin_J mj) = [dimn, dimn, nbElts]
     \<and> length (cells (lin_J mj)) = dimn * dimn * nbElts
     \<and> (\<forall>e<nbElts. \<forall>k.
           MeshJacLinear_call mj e k
             = MeshJac_call (new_MeshJac EvalJacobians fes dimn quads nbElts ir_order) e 0
         \<and> MeshJacLinear_call mj e k
             = Inr (map (\<lambda>n. EvalJacobians dimn fes ir_order (dimn * (dimn * (quads * e)) + n))
                      [0..<dimn * dimn]))"
proof -
  let ?Jac = "new_MeshJac EvalJacobians fes dimn quads nbElts ir_order"
  let ?M = "\<lambda>e. map (\<lambda>n. EvalJacobians dimn fes ir_order (dimn * (dimn * (quads * e)) + n))
                      [0..<dimn * dimn]"
  let ?n = "dimn * dimn"
  let ?body = "\<lambda>i Jcells. bnd (MeshJac_call ?Jac i 0) (\<lambda>m.
             assign_view Jcells (offset [dimn, dimn, nbElts] [0, 0, i]) (map Some m))"
  let ?P = "\<lambda>i (c :: 'a option list). length c = ?n * nbElts
              \<and> (\<forall>e<i. take ?n (drop (?n * e) c) = map Some (?M e))"
  have call: "MeshJac_call ?Jac e 0 = Inr (?M e)" if "e < nbElts" for e
    using MeshJac_call_eq [OF that assms, of EvalJacobians fes dimn ir_order] by simp
  have off: "offset [dimn, dimn, nbElts] [0, 0, e] = ?n * e" for e
    by simp
  have fit: "?n * e + ?n \<le> ?n * nbElts" if "e < nbElts" for e
  proof -
    from that have "Suc e \<le> nbElts" by simp
    then have "?n * Suc e \<le> ?n * nbElts" by (rule mult_le_mono2)
    then show ?thesis by simp
  qed
  have "\<exists>c. for_each [0..<nbElts] ?body (uninit (?n * nbElts)) = Inr c \<and> ?P nbElts c"
  proof (rule for_each_total [where P = ?P])
    show "?P 0 (uninit (?n * nbElts))" by (simp add: uninit_def)
  next
    fix i and c :: "'a option list"
    assume i: "i < nbElts" and P: "?P i c"
    let ?c' = "take (?n * i) c @ map Some (?M i) @ drop (?n * i + ?n) c"
    have len: "length (map Some (?M i)) = ?n" by simp
    have b: "?body i c = Inr ?c'"
      using fit [OF i] P i by (simp add: call [OF i] off assign_view_def del: offset.simps)
    have "take ?n (drop (?n * e) ?c') = map Some (?M e)" if e: "e < Suc i" for e
    proof (cases "e = i")
      case True
      have "?n * i + length (map Some (?M i)) \<le> length c" using fit [OF i] P by simp
      from slice_assign_same [OF this] show ?thesis unfolding True len .
    next
      case False
      with e have "e < i" by simp
      then have "Suc e \<le> i" by simp
      then have "?n * Suc e \<le> ?n * i" by (rule mult_le_mono2)
      then have 1: "?n * e + ?n \<le> ?n * i" by simp
      have "?n * i \<le> ?n * nbElts" using i by (intro mult_le_mono2) simp
      then have 2: "?n * i \<le> length c" using P by simp
      have "take ?n (drop (?n * e) ?c') = take ?n (drop (?n * e) c)"
        by (rule slice_assign_before [OF 1 2])
      also have "\<dots> = map Some (?M e)" using P \<open>e < i\<close> by blast
      finally show ?thesis .
    qed
    moreover have "length ?c' = ?n * nbElts" using fit [OF i] P i by simp
    ultimately show "\<exists>c'. ?body i c = Inr c' \<and> ?P (Suc i) c'" using b by blast
  qed
  then obtain c where c: "for_each [0..<nbElts] ?body (uninit (?n * nbElts)) = Inr c"
    and lc: "length c = ?n * nbElts"
    and sl: "\<forall>e<nbElts. take ?n (drop (?n * e) c) = map Some (?M e)" by blast
  let ?mj = "\<lparr>lin_dim = dimn, lin_J = \<lparr>sizes = [dimn, dimn, nbElts], cells = c\<rparr>\<rparr>"
  have new: "new_MeshJacLinear EvalJacobians fes dimn quads nbElts ir_order = Inr ?mj"
    using c by (simp add: new_MeshJacLinear_def Let_def del: offset.simps)
  have "MeshJacLinear_call ?mj e k = Inr (?M e)" if e: "e < nbElts" for e k
  proof -
    have "read_view c (offset [dimn, dimn, nbElts] [0, 0, e]) ?n = Inr (map Some (?M e))"
      unfolding off using fit [OF e] lc sl e by (simp add: read_view_def)
    then show ?thesis
      by (simp add: MeshJacLinear_call_def initialised_map_comp del: offset.simps)
  qed
  with call have "\<forall>e<nbElts. \<forall>k. MeshJacLinear_call ?mj e k = MeshJac_call ?Jac e 0
         \<and> MeshJacLinear_call ?mj e k = Inr (?M e)" by simp
  with new lc call show ?thesis by (intro exI [of _ ?mj]) simp
qed

theorem MeshJacLinear_constant_witness:
  "(0::nat) < 2
   \<and> (\<exists>mj. new_MeshJacLinear (\<lambda>dimn fes ir_order n. int n) () 2 2 2 7 = Inr mj
        \<and> MeshJacLinear_call mj 1 0 = Inr [8, 9, 10, 11]
        \<and> MeshJacLinear_call mj 1 1 = Inr [8, 9, 10, 11])
   \<and> MeshJac_call (new_MeshJac (\<lambda>dimn fes ir_order n. int n) () 2 2 2 7) 1 0 = Inr [8, 9, 10, 11]
   \<and> MeshJac_call (new_MeshJac (\<lambda>dimn fes ir_order n. int n) () 2 2 2 7) 1 1 = Inr [12, 13, 14, 15]"
proof -
  have q: "(0::nat) < 2" by simp
  have full: "MeshJac_call (new_MeshJac (\<lambda>dimn fes ir_order n. int n) () 2 2 2 7) 1 0 = Inr [8, 9, 10, 11]"
    "MeshJac_call (new_MeshJac (\<lambda>dimn fes ir_order n. int n) () 2 2 2 7) 1 1 = Inr [12, 13, 14, 15]"
    by code_simp+
  from MeshJacLinear_constant [OF q, of "\<lambda>dimn fes ir_order n. int n" "()" 2 2 7]
  obtain mj where mj: "new_MeshJacLinear (\<lambda>dimn fes ir_order n. int n) () 2 2 2 7 = Inr mj"
    and c: "\<forall>e<2. \<forall>k. MeshJacLinear_call mj e k
             = MeshJac_call (new_MeshJac (\<lambda>dimn fes ir_order n. int n) () 2 2 2 7) e 0"
    by blast
  from c full(1) have "MeshJacLinear_call mj 1 0 = Inr [8, 9, 10, 11]"
    "MeshJacLinear_call mj 1 1 = Inr [8, 9, 10, 11]"
    by simp_all
  with mj full q show ?thesis by blast
qed

end
